theory Spec2Isabelle
  imports Main
begin

section \<open>Python values\<close>

text \<open>
  A Python \<open>str\<close> is a sequence of Unicode code points, lone surrogates included
  (\<open>json.load\<close> produces them from escaped surrogates). It is modelled as a list of
  natural numbers; \<open>valid_str\<close> says that every element is a code point, that is, below
  \<open>0x110000\<close>. \<open>lit\<close> turns a literal of the source into such a list.
\<close>

type_synonym ustr = "nat list"

definition lit :: "string \<Rightarrow> ustr" where
  "lit s = map of_char s"

definition valid_str :: "ustr \<Rightarrow> bool" where
  "valid_str s = list_all (\<lambda>c. c < 0x110000) s"

text \<open>
  Exceptions are values: the class that the \<open>except\<close> clauses of the source test, and the
  text that \<open>str(e)\<close> gives. \<open>OtherError\<close> stands for any further subclass of
  \<open>Exception\<close> that a collaborator may raise.
\<close>

datatype exc_class = KeyError | TypeError | AttributeError | ValueError
  | UnicodeEncodeError | UnicodeDecodeError | OutputParserException
  | FileNotFoundError | JSONDecodeError | Exception | OtherError string

datatype exn = Exn (cls: exc_class) (msg: ustr)

section \<open>The UTF-8 codec used by \<open>clean_text\<close>\<close>

text \<open>
  \<open>text.encode('utf-8', errors='ignore')\<close> and \<open>bytes.decode('utf-8')\<close> are CPython's codec.
  The encoder writes one to four bytes per code point; a surrogate cannot be encoded, and
  the error handler decides what happens then: \<open>Strict\<close> (the default) raises
  \<open>UnicodeEncodeError\<close>, \<open>Ignore\<close> drops the code point. The decoder is the strict one: it
  raises \<open>UnicodeDecodeError\<close> on a stray or missing continuation byte, an overlong form,
  an encoded surrogate or a value above \<open>0x10FFFF\<close>. Bytes are natural numbers below 256.
  The texts of the two codec errors are shortened.
\<close>

definition is_surrogate :: "nat \<Rightarrow> bool" where
  "is_surrogate c = (0xD800 \<le> c \<and> c \<le> 0xDFFF)"

datatype errors_mode = Strict | Ignore

definition utf8_char :: "nat \<Rightarrow> nat list" where
  "utf8_char c =
     (if c < 0x80 then [c]
      else if c < 0x800 then [0xC0 + c div 64, 0x80 + c mod 64]
      else if c < 0x10000 then [0xE0 + c div 4096, 0x80 + (c div 64) mod 64, 0x80 + c mod 64]
      else [0xF0 + c div 262144, 0x80 + (c div 4096) mod 64, 0x80 + (c div 64) mod 64,
            0x80 + c mod 64])"

fun utf8_encode :: "errors_mode \<Rightarrow> ustr \<Rightarrow> exn + nat list" where
  "utf8_encode h [] = Inr []"
| "utf8_encode h (c # cs) =
     (if is_surrogate c then
        (case h of
           Ignore \<Rightarrow> utf8_encode h cs
         | Strict \<Rightarrow> Inl (Exn UnicodeEncodeError (lit ''surrogates not allowed'')))
      else (case utf8_encode h cs of
              Inl e \<Rightarrow> Inl e
            | Inr bs \<Rightarrow> Inr (utf8_char c @ bs)))"

definition continuation :: "nat \<Rightarrow> bool" where
  "continuation b = (0x80 \<le> b \<and> b < 0xC0)"

definition bad_utf8 :: "exn + ustr" where
  "bad_utf8 = Inl (Exn UnicodeDecodeError (lit ''invalid utf-8''))"

definition emit :: "nat \<Rightarrow> exn + ustr \<Rightarrow> exn + ustr" where
  "emit c r = (case r of Inl e \<Rightarrow> Inl e | Inr s \<Rightarrow> Inr (c # s))"

fun utf8_decode :: "nat list \<Rightarrow> exn + ustr" where
  "utf8_decode [] = Inr []"
| "utf8_decode (b0 # bs) =
     (if b0 < 0x80 then emit b0 (utf8_decode bs)
      else if 0xC2 \<le> b0 \<and> b0 < 0xE0 then
        (case bs of
           b1 # r \<Rightarrow>
             if continuation b1 then emit ((b0 - 0xC0) * 64 + (b1 - 0x80)) (utf8_decode r)
             else bad_utf8
         | _ \<Rightarrow> bad_utf8)
      else if 0xE0 \<le> b0 \<and> b0 < 0xF0 then
        (case bs of
           b1 # b2 # r \<Rightarrow>
             (let c = (b0 - 0xE0) * 4096 + (b1 - 0x80) * 64 + (b2 - 0x80)
              in if continuation b1 \<and> continuation b2 \<and> 0x800 \<le> c \<and> \<not> is_surrogate c
                 then emit c (utf8_decode r) else bad_utf8)
         | _ \<Rightarrow> bad_utf8)
      else if 0xF0 \<le> b0 \<and> b0 < 0xF5 then
        (case bs of
           b1 # b2 # b3 # r \<Rightarrow>
             (let c = (b0 - 0xF0) * 262144 + (b1 - 0x80) * 4096 + (b2 - 0x80) * 64
                        + (b3 - 0x80)
              in if continuation b1 \<and> continuation b2 \<and> continuation b3
                    \<and> 0x10000 \<le> c \<and> c < 0x110000
                 then emit c (utf8_decode r) else bad_utf8)
         | _ \<Rightarrow> bad_utf8)
      else bad_utf8)"

section \<open>Text Normalizer: \<open>clean_text\<close>\<close>

text \<open>
  The \<open>re.sub\<close> call of line 27 replaces by a space every character outside a
  negated character class of three ranges: \<open>0x20\<close> to \<open>0x7E\<close>, \<open>0xA0\<close> to
  \<open>0xFFFF\<close>, and \<open>0xD80\<close> to \<open>0xDFF\<close>. A character is kept when it lies in one
  of them.
\<close>

definition kept :: "nat \<Rightarrow> bool" where
  "kept c = ((0x20 \<le> c \<and> c \<le> 0x7E) \<or> (0xA0 \<le> c \<and> c \<le> 0xFFFF) \<or> (0xD80 \<le> c \<and> c \<le> 0xDFF))"

definition re_sub :: "ustr \<Rightarrow> ustr" where
  "re_sub t = map (\<lambda>c. if kept c then c else 0x20) t"

text \<open>
  \<open>str.strip()\<close> without argument removes leading and trailing whitespace, where
  whitespace is what \<open>str.isspace\<close> accepts: the ASCII controls 9 to 13 and 28 to 31, the
  space, and the Unicode separators listed below.
\<close>

definition py_isspace :: "nat \<Rightarrow> bool" where
  "py_isspace c =
     ((9 \<le> c \<and> c \<le> 13) \<or> (28 \<le> c \<and> c \<le> 32) \<or> c = 0x85 \<or> c = 0xA0 \<or> c = 0x1680
      \<or> (0x2000 \<le> c \<and> c \<le> 0x200A) \<or> c = 0x2028 \<or> c = 0x2029 \<or> c = 0x202F
      \<or> c = 0x205F \<or> c = 0x3000)"

definition strip :: "ustr \<Rightarrow> ustr" where
  "strip t = rev (dropWhile py_isspace (rev (dropWhile py_isspace t)))"

text \<open>
  \<open>clean_text\<close>, lines 14 to 28. \<open>nfkc\<close> is \<open>unicodedata.normalize('NFKC', _)\<close>, a table of
  the Unicode database that the fallback branch consults; it is a parameter. The
  \<open>except\<close> clause catches \<open>UnicodeEncodeError\<close> only, so any other exception of the
  \<open>try\<close> body leaves the function.
\<close>

definition clean_text :: "(ustr \<Rightarrow> ustr) \<Rightarrow> ustr \<Rightarrow> exn + ustr" where
  "clean_text nfkc text =
     (case (case utf8_encode Ignore text of
              Inl e \<Rightarrow> Inl e
            | Inr bs \<Rightarrow> utf8_decode bs) of
        Inr t \<Rightarrow> Inr (strip (re_sub t))
      | Inl e \<Rightarrow>
          if cls e = UnicodeEncodeError
          then Inr (strip (re_sub (filter (\<lambda>c. \<not> (0xD800 \<le> c \<and> c \<le> 0xDFFF)) (nfkc text))))
          else Inl e)"

section \<open>Parsed JSON, the log and the collaborators\<close>

text \<open>
  What \<open>json.load\<close> and the output parser return. A \<open>dict\<close> keeps insertion order, so an
  object is an association list; its keys are distinct in every value that Python builds.
  \<open>JFloat\<close> carries the 64 bits of the double: no function of the source computes with
  numbers.
\<close>

datatype json = JNull | JBool bool | JInt int | JFloat nat | JStr ustr
  | JArr "json list" | JObj "(ustr \<times> json) list"

type_synonym dict = "(ustr \<times> json) list"

text \<open>
  Logging and printing only append, and nothing reads them back: a function that logs
  returns the events it emitted, in order, next to its result. The format string of
  \<open>logging.basicConfig\<close> adds the time and the level name to each record; a record is
  modelled by its level and message. Neither sink raises here: the handlers of the
  \<open>logging\<close> module report their own errors without raising them, and standard output
  is assumed to accept every string that \<open>print\<close> is given (an output stream with a
  strict encoding would raise on a lone surrogate in the excerpt of line 83).
\<close>

datatype level = INFO | WARNING | ERROR

datatype event = Log level ustr | Print ustr

text \<open>
  The collaborators that the source imports or calls and does not define:
  \<^item> \<open>nfkc\<close>: \<open>unicodedata.normalize('NFKC', _)\<close>;
  \<^item> \<open>invoke_extract i post\<close>: the content of \<open>chain.invoke(input={"post": post})\<close> in
  \<open>extract_metadata\<close>, for the call made for the post at index \<open>i\<close> of the batch. A
  language model may answer the same prompt differently each time, so the answer depends
  on the call and not on the text alone; the loop makes at most one call per index;
  \<^item> \<open>invoke_unify tags\<close>: the same for the single call of \<open>get_unified_tags\<close>;
  \<^item> \<open>json_parse\<close>: \<open>JsonOutputParser().parse\<close>;
  \<^item> \<open>py_repr\<close>: the text that an f-string gives for a parsed value that is not a \<open>str\<close>;
  \<^item> \<open>set_iter\<close>: the elements of the \<open>set\<close> built from the given hashable values, in
  the order in which Python iterates over it (duplicates removed, order unspecified);
  \<^item> \<open>json_dump path posts\<close>: opening the output file and \<open>json.dump\<close>; \<open>None\<close> when
  nothing is raised.
\<close>

record env =
  nfkc :: "ustr \<Rightarrow> ustr"
  invoke_extract :: "nat \<Rightarrow> ustr \<Rightarrow> exn + ustr"
  invoke_unify :: "ustr \<Rightarrow> exn + ustr"
  json_parse :: "ustr \<Rightarrow> exn + json"
  py_repr :: "json \<Rightarrow> ustr"
  set_iter :: "json list \<Rightarrow> json list"
  json_dump :: "ustr \<Rightarrow> dict list \<Rightarrow> exn option"

text \<open>The first exception of a sequence of evaluations wins, as in a comprehension.\<close>

fun collect :: "(exn + 'a) list \<Rightarrow> exn + 'a list" where
  "collect [] = Inr []"
| "collect (r # rs) =
     (case r of
        Inl e \<Rightarrow> Inl e
      | Inr x \<Rightarrow> (case collect rs of Inl e \<Rightarrow> Inl e | Inr xs \<Rightarrow> Inr (x # xs)))"

definition quoted :: "ustr \<Rightarrow> ustr" where
  "quoted s = 39 # s @ [39]"

fun str_nat :: "nat \<Rightarrow> ustr" where
  "str_nat n = (if n < 10 then [48 + n] else str_nat (n div 10) @ [48 + n mod 10])"

declare str_nat.simps [simp del]

definition type_name :: "json \<Rightarrow> ustr" where
  "type_name v =
     (case v of
        JNull \<Rightarrow> lit ''NoneType'' | JBool _ \<Rightarrow> lit ''bool'' | JInt _ \<Rightarrow> lit ''int''
      | JFloat _ \<Rightarrow> lit ''float'' | JStr _ \<Rightarrow> lit ''str'' | JArr _ \<Rightarrow> lit ''list''
      | JObj _ \<Rightarrow> lit ''dict'')"

definition format :: "env \<Rightarrow> json \<Rightarrow> ustr" where
  "format env v = (case v of JStr s \<Rightarrow> s | _ \<Rightarrow> py_repr env v)"

text \<open>\<open>d[k] = v\<close>: an existing key keeps its place, a new key goes to the end.\<close>

fun dict_set :: "ustr \<Rightarrow> json \<Rightarrow> dict \<Rightarrow> dict" where
  "dict_set k v [] = [(k, v)]"
| "dict_set k v (p # ps) = (if fst p = k then (k, v) # ps else p # dict_set k v ps)"

text \<open>\<open>d.update(other)\<close> assigns the items of \<open>other\<close> in their order.\<close>

fun dict_update :: "dict \<Rightarrow> dict \<Rightarrow> dict" where
  "dict_update d [] = d"
| "dict_update d ((k, v) # kvs) = dict_update (dict_set k v d) kvs"

section \<open>\<open>clean_text\<close> on values, \<open>clean_metadata\<close>\<close>

text \<open>
  The annotation \<open>text: str\<close> is not enforced: called on a value that is not a \<open>str\<close>,
  \<open>clean_text\<close> fails at \<open>text.encode\<close> with \<open>AttributeError\<close>.
\<close>

definition clean_text_any :: "env \<Rightarrow> json \<Rightarrow> exn + ustr" where
  "clean_text_any env v =
     (case v of
        JStr s \<Rightarrow> clean_text (nfkc env) s
      | _ \<Rightarrow> Inl (Exn AttributeError
                 (quoted (type_name v) @ lit '' object has no attribute '' @ quoted (lit ''encode''))))"

definition clean_item :: "env \<Rightarrow> json \<Rightarrow> exn + json" where
  "clean_item env item =
     (case item of
        JStr s \<Rightarrow> (case clean_text (nfkc env) s of Inl e \<Rightarrow> Inl e | Inr t \<Rightarrow> Inr (JStr t))
      | _ \<Rightarrow> Inr item)"

definition clean_value :: "env \<Rightarrow> json \<Rightarrow> exn + json" where
  "clean_value env v =
     (case v of
        JStr s \<Rightarrow> (case clean_text (nfkc env) s of Inl e \<Rightarrow> Inl e | Inr t \<Rightarrow> Inr (JStr t))
      | JArr items \<Rightarrow>
          (case collect (map (clean_item env) items) of
             Inl e \<Rightarrow> Inl e
           | Inr items' \<Rightarrow> Inr (JArr items'))
      | _ \<Rightarrow> Inr v)"

definition clean_metadata :: "env \<Rightarrow> dict \<Rightarrow> exn + dict" where
  "clean_metadata env metadata =
     collect (map (\<lambda>(key, v). case clean_value env v of
                                 Inl e \<Rightarrow> Inl e
                               | Inr v' \<Rightarrow> Inr (key, v')) metadata)"

section \<open>\<open>extract_json_from_response\<close>\<close>

text \<open>
  \<open>re.search\<close> with the pattern of line 51, an opening brace, \<open>.*?\<close> and a closing brace,
  under \<open>re.DOTALL\<close>. The search tries the start positions from left to right
  (\<open>re_search\<close>); at a position, the pattern needs an opening brace (\<open>match_here\<close>), then
  the lazy \<open>.*?\<close> tries the closing brace before it consumes one more character, any
  character (\<open>lazy_to_brace\<close>). The result is the matched text, \<open>match.group(0)\<close>.
\<close>

fun lazy_to_brace :: "ustr \<Rightarrow> ustr option" where
  "lazy_to_brace [] = None"
| "lazy_to_brace (c # cs) =
     (if c = 0x7D then Some [c]
      else (case lazy_to_brace cs of None \<Rightarrow> None | Some m \<Rightarrow> Some (c # m)))"

definition match_here :: "ustr \<Rightarrow> ustr option" where
  "match_here s =
     (case s of
        [] \<Rightarrow> None
      | c # cs \<Rightarrow>
          if c = 0x7B then (case lazy_to_brace cs of None \<Rightarrow> None | Some m \<Rightarrow> Some (c # m))
          else None)"

fun re_search :: "ustr \<Rightarrow> ustr option" where
  "re_search [] = match_here []"
| "re_search (c # cs) =
     (case match_here (c # cs) of Some m \<Rightarrow> Some m | None \<Rightarrow> re_search cs)"

definition extract_json_from_response :: "ustr \<Rightarrow> exn + ustr" where
  "extract_json_from_response response_text =
     (case re_search response_text of
        Some m \<Rightarrow> Inr m
      | None \<Rightarrow> Inl (Exn ValueError (lit ''No valid JSON object found in response'')))"

section \<open>Metadata Extractor: \<open>extract_metadata\<close>\<close>

text \<open>Lines 141 to 145: the checks on the parsed result.\<close>

definition validate_metadata :: "env \<Rightarrow> json \<Rightarrow> exn + dict" where
  "validate_metadata env res =
     (case res of
        JObj d \<Rightarrow>
          if list_all (\<lambda>k. map_of d k \<noteq> None) [lit ''line_count'', lit ''language'', lit ''tags'']
          then (case map_of d (lit ''language'') of
                  None \<Rightarrow> Inl (Exn KeyError (quoted (lit ''language'')))
                | Some l \<Rightarrow>
                    if l \<notin> set [JStr (lit ''English''), JStr (lit ''Sinhala'')]
                    then Inl (Exn ValueError
                           (lit ''Invalid language '' @ quoted (format env l)
                            @ lit '' returned by LLM.''))
                    else Inr d)
          else Inl (Exn ValueError (lit ''Invalid metadata format returned by LLM.''))
      | _ \<Rightarrow> Inl (Exn ValueError (lit ''Invalid metadata format returned by LLM.'')))"

text \<open>Lines 135 to 145: the body of the \<open>try\<close>.\<close>

definition extract_metadata_try :: "env \<Rightarrow> nat \<Rightarrow> ustr \<Rightarrow> exn + dict" where
  "extract_metadata_try env i post =
     (case invoke_extract env i post of
        Inl e \<Rightarrow> Inl e
      | Inr content \<Rightarrow>
          (case extract_json_from_response content of
             Inl e \<Rightarrow> Inl e
           | Inr json_str \<Rightarrow>
               (case json_parse env json_str of
                  Inl e \<Rightarrow> Inl e
                | Inr res \<Rightarrow> validate_metadata env res)))"

text \<open>
  Lines 133 to 151: both handlers log and raise again, the first under the class it
  caught, the second as a plain \<open>Exception\<close>.
\<close>

definition extract_metadata :: "env \<Rightarrow> nat \<Rightarrow> ustr \<Rightarrow> (exn + dict) \<times> event list" where
  "extract_metadata env i post =
     (case extract_metadata_try env i post of
        Inr res \<Rightarrow> (Inr res, [])
      | Inl e \<Rightarrow>
          if cls e = OutputParserException
          then (let m = lit ''Failed to parse LLM response: '' @ msg e
                in (Inl (Exn OutputParserException m), [Log ERROR m]))
          else (let m = lit ''Error extracting metadata: '' @ msg e
                in (Inl (Exn Exception m), [Log ERROR m])))"

section \<open>Tag Unifier: \<open>get_unified_tags\<close>\<close>

text \<open>\<open>post.get('tags', [])\<close>.\<close>

definition get_tags :: "dict \<Rightarrow> json" where
  "get_tags post = (case map_of post (lit ''tags'') of None \<Rightarrow> JArr [] | Some v \<Rightarrow> v)"

text \<open>
  \<open>for tag in tags\<close>: a list gives its elements, a \<open>str\<close> its characters, a \<open>dict\<close> its
  keys; any other parsed value is not iterable.
\<close>

definition iterate :: "json \<Rightarrow> exn + json list" where
  "iterate v =
     (case v of
        JArr xs \<Rightarrow> Inr xs
      | JStr s \<Rightarrow> Inr (map (\<lambda>c. JStr [c]) s)
      | JObj d \<Rightarrow> Inr (map (\<lambda>(k, _). JStr k) d)
      | _ \<Rightarrow> Inl (Exn TypeError (quoted (type_name v) @ lit '' object is not iterable'')))"

definition cleaned_tags :: "env \<Rightarrow> dict \<Rightarrow> exn + ustr list" where
  "cleaned_tags env post =
     (case iterate (get_tags post) of
        Inl e \<Rightarrow> Inl e
      | Inr tags \<Rightarrow> collect (map (clean_text_any env) tags))"

fun join :: "ustr \<Rightarrow> ustr list \<Rightarrow> ustr" where
  "join sep [] = []"
| "join sep [x] = x"
| "join sep (x # y # ys) = x @ sep @ join sep (y # ys)"

definition strs :: "json list \<Rightarrow> ustr list" where
  "strs vs = concat (map (\<lambda>v. case v of JStr s \<Rightarrow> [s] | _ \<Rightarrow> []) vs)"

text \<open>Lines 181 to 188: the body of the \<open>try\<close>.\<close>

definition get_unified_tags_try :: "env \<Rightarrow> ustr \<Rightarrow> exn + dict" where
  "get_unified_tags_try env unique_tags_list =
     (case clean_text (nfkc env) unique_tags_list of
        Inl e \<Rightarrow> Inl e
      | Inr tags \<Rightarrow>
          (case invoke_unify env tags of
             Inl e \<Rightarrow> Inl e
           | Inr content \<Rightarrow>
               (case extract_json_from_response content of
                  Inl e \<Rightarrow> Inl e
                | Inr json_str \<Rightarrow>
                    (case json_parse env json_str of
                       Inl e \<Rightarrow> Inl e
                     | Inr (JObj d) \<Rightarrow> Inr d
                     | Inr _ \<Rightarrow>
                         Inl (Exn ValueError
                                (lit ''Invalid tag unification format returned by LLM.''))))))"

text \<open>
  Lines 154 to 194. The loop that collects the tags (lines 155 to 160) is outside the
  \<open>try\<close>: an exception there leaves the function as it is.
\<close>

definition get_unified_tags :: "env \<Rightarrow> dict list \<Rightarrow> (exn + dict) \<times> event list" where
  "get_unified_tags env posts_with_metadata =
     (case collect (map (cleaned_tags env) posts_with_metadata) of
        Inl e \<Rightarrow> (Inl e, [])
      | Inr tagss \<Rightarrow>
          (let unique_tags = strs (set_iter env (map JStr (concat tagss)));
               unique_tags_list = join (lit '','') unique_tags
           in case get_unified_tags_try env unique_tags_list of
                Inr res \<Rightarrow> (Inr res, [])
              | Inl e \<Rightarrow>
                  if cls e = OutputParserException
                  then (let m = lit ''Failed to parse tag unification response: '' @ msg e
                        in (Inl (Exn OutputParserException m), [Log ERROR m]))
                  else (let m = lit ''Error unifying tags: '' @ msg e
                        in (Inl (Exn Exception m), [Log ERROR m]))))"

section \<open>Corpus Enrichment Pipeline: \<open>process_posts\<close>\<close>

text \<open>
  \<open>post['text'][:100]\<close> inside an f-string, as in lines 65 and 81. The subscript raises
  \<open>KeyError\<close> when the key is absent (\<open>str\<close> of that error is the key in quotes); the
  slice is defined on a \<open>str\<close> and on a list, and raises on every other parsed value
  (on a \<open>dict\<close>: \<open>TypeError\<close> before Python 3.12, \<open>KeyError\<close> since; the model has the
  former).
\<close>

definition subscript_text :: "dict \<Rightarrow> exn + json" where
  "subscript_text post =
     (case map_of post (lit ''text'') of
        None \<Rightarrow> Inl (Exn KeyError (quoted (lit ''text'')))
      | Some v \<Rightarrow> Inr v)"

definition slice100 :: "json \<Rightarrow> exn + json" where
  "slice100 v =
     (case v of
        JStr s \<Rightarrow> Inr (JStr (take 100 s))
      | JArr xs \<Rightarrow> Inr (JArr (take 100 xs))
      | JObj _ \<Rightarrow> Inl (Exn TypeError (lit ''unhashable type: '' @ quoted (lit ''slice'')))
      | _ \<Rightarrow> Inl (Exn TypeError (quoted (type_name v) @ lit '' object is not subscriptable'')))"

definition excerpt :: "env \<Rightarrow> dict \<Rightarrow> exn + ustr" where
  "excerpt env post =
     (case subscript_text post of
        Inl e \<Rightarrow> Inl e
      | Inr v \<Rightarrow> (case slice100 v of Inl e \<Rightarrow> Inl e | Inr w \<Rightarrow> Inr (format env w)))"

text \<open>Lines 71 to 79: clean, extract, clean the metadata, merge into a copy.\<close>

definition enrich_post :: "env \<Rightarrow> nat \<Rightarrow> dict \<Rightarrow> (exn + dict) \<times> event list" where
  "enrich_post env i post =
     (case subscript_text post of
        Inl e \<Rightarrow> (Inl e, [])
      | Inr v \<Rightarrow>
          (case clean_text_any env v of
             Inl e \<Rightarrow> (Inl e, [])
           | Inr cleaned_post_text \<Rightarrow>
               (case extract_metadata env i cleaned_post_text of
                  (Inl e, evs) \<Rightarrow> (Inl e, evs)
                | (Inr metadata, evs) \<Rightarrow>
                    (case clean_metadata env metadata of
                       Inl e \<Rightarrow> (Inl e, evs)
                     | Inr cleaned_metadata \<Rightarrow>
                         (Inr (dict_update
                                 (dict_set (lit ''text'') (JStr cleaned_post_text) post)
                                 cleaned_metadata), evs)))))"

text \<open>
  The keys of the metadata that \<open>extract_metadata\<close> returns for the post at index \<open>i\<close>:
  the keys that \<open>post_with_metadata.update\<close> assigns at line 78.
\<close>

definition extracted_keys :: "env \<Rightarrow> nat \<Rightarrow> dict \<Rightarrow> ustr set" where
  "extracted_keys env i post =
     (case subscript_text post of
        Inl e \<Rightarrow> {}
      | Inr v \<Rightarrow>
          (case clean_text_any env v of
             Inl e \<Rightarrow> {}
           | Inr cleaned_post_text \<Rightarrow>
               (case fst (extract_metadata env i cleaned_post_text) of
                  Inl e \<Rightarrow> {}
                | Inr metadata \<Rightarrow> set (map fst metadata))))"

text \<open>
  Lines 65 to 79, the body of the inner \<open>try\<close>. The result is \<open>Some\<close> of the post that is
  appended to \<open>enriched_posts\<close>, or \<open>None\<close> after the \<open>continue\<close> of line 69.
\<close>

definition try_body :: "env \<Rightarrow> nat \<Rightarrow> dict \<Rightarrow> (exn + dict option) \<times> event list" where
  "try_body env i post =
     (case excerpt env post of
        Inl e \<Rightarrow> (Inl e, [])
      | Inr ex \<Rightarrow>
          (let info = Log INFO (lit ''Processing post '' @ str_nat i @ lit '': '' @ ex
                                @ lit ''...'')
           in if map_of post (lit ''text'') = None
              then (let m = lit ''Post '' @ str_nat i @ lit '' missing '' @ quoted (lit ''text'')
                            @ lit '' field. Skipping.''
                    in (Inr None, [info, Log WARNING m, Print (lit ''Warning: '' @ m)]))
              else (case enrich_post env i post of
                      (Inl e, evs) \<Rightarrow> (Inl e, info # evs)
                    | (Inr p, evs) \<Rightarrow> (Inr (Some p), info # evs))))"

definition error_msg :: "nat \<Rightarrow> ustr \<Rightarrow> exn \<Rightarrow> ustr" where
  "error_msg i ex e =
     lit ''Error processing post '' @ str_nat i @ lit '': '' @ ex @ lit ''... | Error: '' @ msg e"

text \<open>
  The records that line 82 writes: level \<open>ERROR\<close> and a message that starts with the
  literal text of line 81.
\<close>

definition is_post_error :: "event \<Rightarrow> bool" where
  "is_post_error ev =
     (case ev of
        Log l m \<Rightarrow> l = ERROR \<and> take 22 m = lit ''Error processing post ''
      | Print _ \<Rightarrow> False)"

text \<open>
  Lines 64 to 84, one iteration: the body and its handler. The handler evaluates
  \<open>post['text'][:100]\<close> again; an exception there is raised inside the handler and leaves
  the loop.
\<close>

definition iteration :: "env \<Rightarrow> nat \<Rightarrow> dict \<Rightarrow> (exn + dict option) \<times> event list" where
  "iteration env i post =
     (case try_body env i post of
        (Inr r, evs) \<Rightarrow> (Inr r, evs)
      | (Inl e, evs) \<Rightarrow>
          (case excerpt env post of
             Inl e' \<Rightarrow> (Inl e', evs)
           | Inr ex \<Rightarrow> (Inr None, evs @ [Log ERROR (error_msg i ex e), Print (error_msg i ex e)])))"

text \<open>
  The \<open>for\<close> loop of lines 63 to 84 from index \<open>i\<close> on; the result is what the iterations
  append to \<open>enriched_posts\<close>, in order.
\<close>

fun loop :: "env \<Rightarrow> nat \<Rightarrow> dict list \<Rightarrow> (exn + dict list) \<times> event list" where
  "loop env i [] = (Inr [], [])"
| "loop env i (post # posts) =
     (case iteration env i post of
        (Inl e, evs) \<Rightarrow> (Inl e, evs)
      | (Inr r, evs) \<Rightarrow>
          (case loop env (Suc i) posts of
             (Inl e, evs') \<Rightarrow> (Inl e, evs @ evs')
           | (Inr enriched, evs') \<Rightarrow>
               (Inr ((case r of None \<Rightarrow> [] | Some p \<Rightarrow> [p]) @ enriched), evs @ evs')))"

text \<open>
  Lines 94 to 97 for one post. \<open>cleaned_unified_tags.get(tag, tag)\<close> hashes the tag, and
  the set comprehension hashes the value: a list or a \<open>dict\<close> raises \<open>TypeError\<close>. A key of
  the map is a \<open>str\<close>, so a tag of another type is not found.
\<close>

definition unhashable :: "json \<Rightarrow> exn" where
  "unhashable v = Exn TypeError (lit ''unhashable type: '' @ quoted (type_name v))"

definition hashable :: "json \<Rightarrow> bool" where
  "hashable v = (case v of JArr _ \<Rightarrow> False | JObj _ \<Rightarrow> False | _ \<Rightarrow> True)"

definition tag_get :: "dict \<Rightarrow> json \<Rightarrow> exn + json" where
  "tag_get cleaned_unified_tags tag =
     (if \<not> hashable tag then Inl (unhashable tag)
      else (case tag of
              JStr s \<Rightarrow> (case map_of cleaned_unified_tags s of None \<Rightarrow> Inr tag | Some v \<Rightarrow> Inr v)
            | _ \<Rightarrow> Inr tag))"

definition new_tag :: "dict \<Rightarrow> json \<Rightarrow> exn + json" where
  "new_tag cleaned_unified_tags tag =
     (case tag_get cleaned_unified_tags tag of
        Inl e \<Rightarrow> Inl e
      | Inr v \<Rightarrow> if hashable v then Inr v else Inl (unhashable v))"

definition rewrite_tags :: "env \<Rightarrow> dict \<Rightarrow> dict \<Rightarrow> exn + dict" where
  "rewrite_tags env cleaned_unified_tags post =
     (case iterate (get_tags post) of
        Inl e \<Rightarrow> Inl e
      | Inr current_tags \<Rightarrow>
          (case collect (map (new_tag cleaned_unified_tags) current_tags) of
             Inl e \<Rightarrow> Inl e
           | Inr new_tags \<Rightarrow> Inr (dict_set (lit ''tags'') (JArr (set_iter env new_tags)) post)))"

definition no_posts :: ustr where
  "no_posts = lit ''No posts were successfully processed.''"

text \<open>Lines 60 to 103, the body of the outer \<open>try\<close> once the file is loaded.\<close>

definition process_posts_try ::
  "env \<Rightarrow> dict list \<Rightarrow> ustr option \<Rightarrow> (exn + dict list) \<times> event list" where
  "process_posts_try env posts processed_file_path =
     (case loop env 0 posts of
        (Inl e, evs) \<Rightarrow> (Inl e, evs)
      | (Inr enriched_posts, evs) \<Rightarrow>
          if enriched_posts = [] then (Inl (Exn ValueError no_posts), evs @ [Log ERROR no_posts])
          else (case get_unified_tags env enriched_posts of
                  (Inl e, evs') \<Rightarrow> (Inl e, evs @ evs')
                | (Inr unified_tags, evs') \<Rightarrow>
                    (case clean_metadata env unified_tags of
                       Inl e \<Rightarrow> (Inl e, evs @ evs')
                     | Inr cleaned_unified_tags \<Rightarrow>
                         (case collect (map (rewrite_tags env cleaned_unified_tags)
                                          enriched_posts) of
                            Inl e \<Rightarrow> (Inl e, evs @ evs')
                          | Inr out \<Rightarrow>
                              (case processed_file_path of
                                 None \<Rightarrow> (Inr out, evs @ evs')
                               | Some path \<Rightarrow>
                                   (case json_dump env path out of
                                      Some e \<Rightarrow> (Inl e, evs @ evs')
                                    | None \<Rightarrow>
                                        (Inr out, evs @ evs'
                                           @ [Log INFO (lit ''Successfully wrote ''
                                                @ str_nat (length out) @ lit '' posts to ''
                                                @ path)])))))))"

text \<open>
  \<open>process_posts\<close>, lines 58 to 113. \<open>loaded\<close> is what \<open>open\<close> and \<open>json.load\<close> gave for
  \<open>raw_file_path\<close>: an exception, or the list of raw posts. The three \<open>except\<close> clauses
  are tried in order on whatever leaves the body.
\<close>

definition process_posts ::
  "env \<Rightarrow> ustr \<Rightarrow> exn + dict list \<Rightarrow> ustr option \<Rightarrow> (exn + dict list) \<times> event list" where
  "process_posts env raw_file_path loaded processed_file_path =
     (case (case loaded of
              Inl e \<Rightarrow> (Inl e, [])
            | Inr posts \<Rightarrow> process_posts_try env posts processed_file_path) of
        (Inr out, evs) \<Rightarrow> (Inr out, evs)
      | (Inl e, evs) \<Rightarrow>
          if cls e = FileNotFoundError
          then (Inl (Exn FileNotFoundError
                       (lit ''Input file '' @ raw_file_path @ lit '' not found.'')),
                evs @ [Log ERROR (lit ''Input file '' @ raw_file_path @ lit '' not found: ''
                                  @ msg e)])
          else if cls e = JSONDecodeError
          then (Inl (Exn ValueError (lit ''Invalid JSON in '' @ raw_file_path @ lit ''.'')),
                evs @ [Log ERROR (lit ''Invalid JSON in '' @ raw_file_path @ lit '': '' @ msg e)])
          else (Inl (Exn Exception (lit ''Error processing posts: '' @ msg e)),
                evs @ [Log ERROR (lit ''Error processing posts: '' @ msg e)]))"

section \<open>Sample responses and collaborators\<close>

text \<open>
  The response of the specification's example, the JSON text inside it, and the value
  that text denotes.
\<close>

definition sample_response :: ustr where
  \<open>sample_response =
     lit ''Sure! {"line_count": 3, "language": "English", "tags": ["Motivation"]} Hope that helps!''\<close>

definition sample_json :: ustr where
  \<open>sample_json = lit ''{"line_count": 3, "language": "English", "tags": ["Motivation"]}''\<close>

definition sample_metadata :: dict where
  "sample_metadata =
     [(lit ''line_count'', JInt 3), (lit ''language'', JStr (lit ''English'')),
      (lit ''tags'', JArr [JStr (lit ''Motivation'')])]"

definition french_json :: ustr where
  \<open>french_json = lit ''{"line_count": 3, "language": "French", "tags": ["Motivation"]}''\<close>

definition french_metadata :: dict where
  "french_metadata =
     [(lit ''line_count'', JInt 3), (lit ''language'', JStr (lit ''French'')),
      (lit ''tags'', JArr [JStr (lit ''Motivation'')])]"

definition author_json :: ustr where
  \<open>author_json =
     lit ''{"line_count": 1, "language": "English", "tags": ["Career"], "author": "LLM"}''\<close>

definition author_metadata :: dict where
  "author_metadata =
     [(lit ''line_count'', JInt 1), (lit ''language'', JStr (lit ''English'')),
      (lit ''tags'', JArr [JStr (lit ''Career'')]), (lit ''author'', JStr (lit ''LLM''))]"

definition identity_json :: ustr where
  \<open>identity_json = lit ''{"Motivation": "Motivation", "Career": "Career"}''\<close>

definition identity_tag_map :: dict where
  "identity_tag_map =
     [(lit ''Motivation'', JStr (lit ''Motivation'')), (lit ''Career'', JStr (lit ''Career''))]"

definition chain_json :: ustr where
  \<open>chain_json = lit ''{"Motivation": "Growth", "Growth": "Mindset"}''\<close>

definition chain_tag_map :: dict where
  "chain_tag_map =
     [(lit ''Motivation'', JStr (lit ''Growth'')), (lit ''Growth'', JStr (lit ''Mindset''))]"

definition merge_json :: ustr where
  \<open>merge_json = lit ''{"Motivation": "Growth", "Inspiration": "Growth", "Career": "Career"}''\<close>

definition merge_tag_map :: dict where
  "merge_tag_map =
     [(lit ''Motivation'', JStr (lit ''Growth'')), (lit ''Inspiration'', JStr (lit ''Growth'')),
      (lit ''Career'', JStr (lit ''Career''))]"

text \<open>
  An output parser that knows the JSON texts above and rejects every other text, and
  collaborators around it: the identity for the normalization, insertion order without
  duplicates for sets, a file system that accepts every write. The answers of the
  language model are the two arguments.
\<close>

definition sample_parse :: "ustr \<Rightarrow> exn + json" where
  "sample_parse s =
     (if s = sample_json then Inr (JObj sample_metadata)
      else if s = french_json then Inr (JObj french_metadata)
      else if s = author_json then Inr (JObj author_metadata)
      else if s = identity_json then Inr (JObj identity_tag_map)
      else if s = chain_json then Inr (JObj chain_tag_map)
      else if s = merge_json then Inr (JObj merge_tag_map)
      else Inl (Exn OutputParserException (lit ''Invalid json output: '' @ s)))"

definition sample_env :: "(nat \<Rightarrow> ustr \<Rightarrow> exn + ustr) \<Rightarrow> (ustr \<Rightarrow> exn + ustr) \<Rightarrow> env" where
  "sample_env extract_answer unify_answer =
     \<lparr>nfkc = (\<lambda>t. t), invoke_extract = extract_answer, invoke_unify = unify_answer,
      json_parse = sample_parse, py_repr = (\<lambda>v. lit ''<repr>''), set_iter = remdups,
      json_dump = (\<lambda>path posts. None)\<rparr>"


definition fails_at_three :: "nat \<Rightarrow> ustr \<Rightarrow> exn + ustr" where
  "fails_at_three i post =
     (if i = 3 then Inl (Exn (OtherError ''TimeoutError'') (lit ''Request timed out.''))
      else Inr sample_response)"

text \<open>
  A raw post with two fields besides its text, and the post that enrichment makes of it
  when the language model answers with an object that has an \<open>author\<close> key.
\<close>

definition authored_post :: dict where
  "authored_post =
     [(lit ''text'', JStr (lit ''Post zero'')), (lit ''author'', JStr (lit ''Asha'')),
      (lit ''id'', JInt 7)]"

definition authored_enriched :: dict where
  "authored_enriched =
     [(lit ''text'', JStr (lit ''Post zero'')), (lit ''author'', JStr (lit ''LLM'')),
      (lit ''id'', JInt 7), (lit ''line_count'', JInt 1),
      (lit ''language'', JStr (lit ''English'')), (lit ''tags'', JArr [JStr (lit ''Career'')])]"

text \<open>An enriched post with the given tags.\<close>

definition tagged_post :: "ustr list \<Rightarrow> dict" where
  "tagged_post tags =
     [(lit ''text'', JStr (lit ''Post zero'')), (lit ''line_count'', JInt 3),
      (lit ''language'', JStr (lit ''English'')), (lit ''tags'', JArr (map JStr tags))]"

section \<open>The codec round trip\<close>

lemma utf8_char2:
  "\<not> c < 0x80 \<Longrightarrow> c < 0x800 \<Longrightarrow> utf8_char c = [0xC0 + c div 64, 0x80 + c mod 64]"
  by (simp add: utf8_char_def)

lemma utf8_char3:
  "\<not> c < 0x800 \<Longrightarrow> c < 0x10000 \<Longrightarrow>
   utf8_char c = [0xE0 + c div 4096, 0x80 + (c div 64) mod 64, 0x80 + c mod 64]"
  by (simp add: utf8_char_def)

lemma utf8_char4:
  "\<not> c < 0x10000 \<Longrightarrow>
   utf8_char c = [0xF0 + c div 262144, 0x80 + (c div 4096) mod 64, 0x80 + (c div 64) mod 64,
                  0x80 + c mod 64]"
  by (simp add: utf8_char_def)

lemma decode_two:
  "2 \<le> h \<Longrightarrow> h < 32 \<Longrightarrow> l < 64 \<Longrightarrow>
   utf8_decode ((0xC0 + h) # (0x80 + l) # bs) = emit (h * 64 + l) (utf8_decode bs)"
  by (simp add: continuation_def)

lemma decode_three:
  "h < 16 \<Longrightarrow> m < 64 \<Longrightarrow> l < 64 \<Longrightarrow> 0x800 \<le> h * 4096 + m * 64 + l \<Longrightarrow>
   \<not> is_surrogate (h * 4096 + m * 64 + l) \<Longrightarrow>
   utf8_decode ((0xE0 + h) # (0x80 + m) # (0x80 + l) # bs)
     = emit (h * 4096 + m * 64 + l) (utf8_decode bs)"
  by (simp add: continuation_def)

lemma decode_four:
  "h < 5 \<Longrightarrow> m < 64 \<Longrightarrow> n < 64 \<Longrightarrow> l < 64 \<Longrightarrow>
   0x10000 \<le> h * 262144 + m * 4096 + n * 64 + l \<Longrightarrow>
   h * 262144 + m * 4096 + n * 64 + l < 0x110000 \<Longrightarrow>
   utf8_decode ((0xF0 + h) # (0x80 + m) # (0x80 + n) # (0x80 + l) # bs)
     = emit (h * 262144 + m * 4096 + n * 64 + l) (utf8_decode bs)"
  by (simp add: continuation_def)

lemma digits3: "(c div 4096) * 4096 + ((c div 64) mod 64) * 64 + c mod 64 = (c::nat)"
proof -
  have d: "c div 4096 = c div 64 div 64"
    using div_mult2_eq[of c 64 64] by simp
  have "(c div 64 div 64) * 4096 + ((c div 64) mod 64) * 64
          = (c div 64 div 64 * 64 + (c div 64) mod 64) * 64"
    by (simp only: distrib_right mult.assoc)
  also have "\<dots> = (c div 64) * 64"
    by (simp only: div_mult_mod_eq)
  finally have "(c div 64 div 64) * 4096 + ((c div 64) mod 64) * 64 + c mod 64
                  = (c div 64) * 64 + c mod 64"
    by (rule arg_cong[where f = "\<lambda>x. x + c mod 64"])
  also have "\<dots> = c"
    by (simp only: div_mult_mod_eq)
  finally show ?thesis unfolding d .
qed

lemma digits4:
  "(c div 262144) * 262144 + ((c div 4096) mod 64) * 4096 + ((c div 64) mod 64) * 64 + c mod 64
     = (c::nat)"
proof -
  have d: "c div 262144 = c div 4096 div 64"
    using div_mult2_eq[of c 4096 64] by simp
  have "(c div 4096 div 64) * 262144 + ((c div 4096) mod 64) * 4096
          = (c div 4096 div 64 * 64 + (c div 4096) mod 64) * 4096"
    by (simp only: distrib_right mult.assoc)
  also have "\<dots> = (c div 4096) * 4096"
    by (simp only: div_mult_mod_eq)
  finally have "(c div 4096 div 64) * 262144 + ((c div 4096) mod 64) * 4096
                  + (((c div 64) mod 64) * 64 + c mod 64)
                  = (c div 4096) * 4096 + (((c div 64) mod 64) * 64 + c mod 64)"
    by (rule arg_cong[where f = "\<lambda>x. x + (((c div 64) mod 64) * 64 + c mod 64)"])
  also have "\<dots> = c"
    using digits3[of c] by (simp only: add.assoc)
  finally show ?thesis unfolding d by (simp only: add.assoc)
qed

lemma decode_char1: "c < 0x80 \<Longrightarrow> utf8_decode (utf8_char c @ bs) = emit c (utf8_decode bs)"
  by (simp add: utf8_char_def)

lemma decode_char2:
  assumes "\<not> c < 0x80" "c < 0x800"
  shows "utf8_decode (utf8_char c @ bs) = emit c (utf8_decode bs)"
proof -
  have 1: "2 \<le> c div 64" "c div 64 < 32"
    using assms by auto
  have "utf8_decode (utf8_char c @ bs) = emit (c div 64 * 64 + c mod 64) (utf8_decode bs)"
    unfolding utf8_char2[OF assms] using decode_two[OF 1, of "c mod 64" bs] by simp
  then show ?thesis by simp
qed

lemma decode_char3:
  assumes "\<not> c < 0x800" "c < 0x10000" "\<not> is_surrogate c"
  shows "utf8_decode (utf8_char c @ bs) = emit c (utf8_decode bs)"
proof -
  have 1: "c div 4096 < 16"
    using assms by auto
  have "utf8_decode (utf8_char c @ bs)
          = emit ((c div 4096) * 4096 + ((c div 64) mod 64) * 64 + c mod 64) (utf8_decode bs)"
    unfolding utf8_char3[OF assms(1,2)]
    using decode_three[OF 1, of "(c div 64) mod 64" "c mod 64" bs] assms
    unfolding digits3 by simp
  then show ?thesis unfolding digits3 .
qed

lemma decode_char4:
  assumes "\<not> c < 0x10000" "c < 0x110000"
  shows "utf8_decode (utf8_char c @ bs) = emit c (utf8_decode bs)"
proof -
  have 1: "c div 262144 < 5"
    using assms by auto
  have "utf8_decode (utf8_char c @ bs)
          = emit ((c div 262144) * 262144 + ((c div 4096) mod 64) * 4096
                   + ((c div 64) mod 64) * 64 + c mod 64) (utf8_decode bs)"
    unfolding utf8_char4[OF assms(1)]
    using decode_four[OF 1, of "(c div 4096) mod 64" "(c div 64) mod 64" "c mod 64" bs] assms
    unfolding digits4 by simp
  then show ?thesis unfolding digits4 .
qed

lemma decode_char:
  assumes "c < 0x110000" "\<not> is_surrogate c"
  shows "utf8_decode (utf8_char c @ bs) = emit c (utf8_decode bs)"
proof (cases "c < 0x80")
  case True
  then show ?thesis by (rule decode_char1)
next
  case a: False
  show ?thesis
  proof (cases "c < 0x800")
    case True
    with a show ?thesis by (rule decode_char2)
  next
    case b: False
    show ?thesis
    proof (cases "c < 0x10000")
      case True
      from b True assms(2) show ?thesis by (rule decode_char3)
    next
      case False
      from False assms(1) show ?thesis by (rule decode_char4)
    qed
  qed
qed

lemma encode_ignore_total:
  "\<exists>bs. utf8_encode Ignore s = Inr bs"
  by (induction s) auto

lemma decode_encode_ignore:
  "valid_str s \<Longrightarrow> utf8_encode Ignore s = Inr bs \<Longrightarrow>
   utf8_decode bs = Inr (filter (\<lambda>c. \<not> is_surrogate c) s)"
proof (induction s arbitrary: bs)
  case Nil
  then show ?case by simp
next
  case (Cons c cs)
  show ?case
  proof (cases "is_surrogate c")
    case True
    with Cons show ?thesis by (simp add: valid_str_def)
  next
    case False
    obtain bs' where e: "utf8_encode Ignore cs = Inr bs'"
      using encode_ignore_total by blast
    with Cons.prems False have bs: "bs = utf8_char c @ bs'" by simp
    have v: "valid_str cs" "c < 0x110000"
      using Cons.prems(1) by (simp_all add: valid_str_def)
    have "utf8_decode bs' = Inr (filter (\<lambda>c. \<not> is_surrogate c) cs)"
      using Cons.IH[OF v(1) e] .
    then show ?thesis
      unfolding bs decode_char[OF v(2) False] using False by (simp add: emit_def)
  qed
qed

section \<open>Facts about \<open>clean_text\<close>\<close>

lemma clean_text_primary:
  assumes "valid_str x"
  shows "clean_text nf x = Inr (strip (re_sub (filter (\<lambda>c. \<not> is_surrogate c) x)))"
proof -
  obtain bs where e: "utf8_encode Ignore x = Inr bs"
    using encode_ignore_total by blast
  have "utf8_decode bs = Inr (filter (\<lambda>c. \<not> is_surrogate c) x)"
    using decode_encode_ignore[OF assms e] .
  with e show ?thesis by (simp add: clean_text_def)
qed

lemma strip_subset: "set (strip t) \<subseteq> set t"
proof -
  have "set (strip t) = set (dropWhile py_isspace (rev (dropWhile py_isspace t)))"
    by (simp add: strip_def)
  also have "\<dots> \<subseteq> set (rev (dropWhile py_isspace t))"
    by (auto dest: set_dropWhileD)
  also have "\<dots> \<subseteq> set t"
    by (auto dest: set_dropWhileD)
  finally show ?thesis .
qed

lemma dropWhile_fixed: "xs = [] \<or> \<not> P (hd xs) \<Longrightarrow> dropWhile P xs = xs"
  by (cases xs) auto

lemma dropWhile_head: "dropWhile P xs = [] \<or> \<not> P (hd (dropWhile P xs))"
  using hd_dropWhile by blast

lemma rev_dropWhile_rev_head:
  "xs = [] \<or> \<not> P (hd xs) \<Longrightarrow>
   rev (dropWhile P (rev xs)) = [] \<or> \<not> P (hd (rev (dropWhile P (rev xs))))"
proof (induction xs rule: rev_induct)
  case Nil
  then show ?case by simp
next
  case (snoc a xs)
  show ?case
  proof (cases "P a")
    case True
    have "xs = [] \<or> \<not> P (hd xs)" using snoc.prems by (cases xs) auto
    from snoc.IH[OF this] True show ?thesis by simp
  next
    case False
    then have "rev (dropWhile P (rev (xs @ [a]))) = xs @ [a]" by simp
    with snoc.prems show ?thesis by simp
  qed
qed

lemma strip_ends:
  "strip t = [] \<or> (\<not> py_isspace (hd (strip t)) \<and> \<not> py_isspace (last (strip t)))"
proof (cases "strip t = []")
  case True
  then show ?thesis by simp
next
  case False
  define e where "e = dropWhile py_isspace (rev (dropWhile py_isspace t))"
  have s: "strip t = rev e" by (simp add: strip_def e_def)
  have ne: "e \<noteq> []" using False s by simp
  have "\<not> py_isspace (hd e)" using ne hd_dropWhile unfolding e_def by blast
  then have l: "\<not> py_isspace (last (rev e))"
    using ne by (simp add: last_rev)
  have "rev e = [] \<or> \<not> py_isspace (hd (rev e))"
    unfolding e_def by (rule rev_dropWhile_rev_head) (rule dropWhile_head)
  then have "\<not> py_isspace (hd (rev e))" using ne by simp
  with l show ?thesis unfolding s by simp
qed

lemma strip_fixed:
  assumes "t = [] \<or> (\<not> py_isspace (hd t) \<and> \<not> py_isspace (last t))"
  shows "strip t = t"
proof (cases "t = []")
  case True
  then show ?thesis by (simp add: strip_def)
next
  case False
  with assms have h: "\<not> py_isspace (hd t)" and l: "\<not> py_isspace (last t)" by simp_all
  have 1: "dropWhile py_isspace t = t" using h by (rule_tac dropWhile_fixed) simp
  have "hd (rev t) = last t" using False by (simp add: hd_rev)
  then have 2: "dropWhile py_isspace (rev t) = rev t" using l by (intro dropWhile_fixed) simp
  show ?thesis by (simp add: strip_def 1 2)
qed

lemma re_sub_kept: "\<forall>c\<in>set (re_sub t). kept c"
  by (auto simp: re_sub_def kept_def)

lemma re_sub_fixed: "\<forall>c\<in>set t. kept c \<Longrightarrow> re_sub t = t"
  by (induction t) (auto simp: re_sub_def)

lemma re_sub_no_surrogate:
  "\<forall>c\<in>set t. \<not> is_surrogate c \<Longrightarrow> \<forall>c\<in>set (re_sub t). \<not> is_surrogate c"
  by (auto simp: re_sub_def is_surrogate_def)

lemma kept_valid: "kept c \<Longrightarrow> c < 0x110000"
  by (auto simp: kept_def)

lemma filter_fixed: "\<forall>c\<in>set t. P c \<Longrightarrow> filter P t = t"
  by (induction t) auto

lemma clean_text_output:
  assumes "valid_str x" 
  defines "y \<equiv> strip (re_sub (filter (\<lambda>c. \<not> is_surrogate c) x))"
  shows "clean_text nf x = Inr y" "\<forall>c\<in>set y. kept c" "\<forall>c\<in>set y. \<not> is_surrogate c"
    "y = [] \<or> (\<not> py_isspace (hd y) \<and> \<not> py_isspace (last y))" "valid_str y"
proof -
  show "clean_text nf x = Inr y" unfolding y_def using assms(1) by (rule clean_text_primary)
  show k: "\<forall>c\<in>set y. kept c" unfolding y_def using strip_subset re_sub_kept by blast
  have "\<forall>c\<in>set (re_sub (filter (\<lambda>c. \<not> is_surrogate c) x)). \<not> is_surrogate c"
    by (rule re_sub_no_surrogate) simp
  then show "\<forall>c\<in>set y. \<not> is_surrogate c" unfolding y_def using strip_subset by blast
  show "y = [] \<or> (\<not> py_isspace (hd y) \<and> \<not> py_isspace (last y))"
    unfolding y_def by (rule strip_ends)
  show "valid_str y" using k kept_valid by (auto simp: valid_str_def list_all_iff)
qed

lemma clean_text_fixed:
  assumes "\<forall>c\<in>set y. kept c" "\<forall>c\<in>set y. \<not> is_surrogate c"
    "y = [] \<or> (\<not> py_isspace (hd y) \<and> \<not> py_isspace (last y))"
  shows "clean_text nf y = Inr y"
proof -
  have v: "valid_str y" using assms(1) kept_valid by (auto simp: valid_str_def list_all_iff)
  have "clean_text nf y = Inr (strip (re_sub (filter (\<lambda>c. \<not> is_surrogate c) y)))"
    using v by (rule clean_text_primary)
  also have "filter (\<lambda>c. \<not> is_surrogate c) y = y" using assms(2) by (rule filter_fixed)
  also have "re_sub y = y" using assms(1) by (rule re_sub_fixed)
  also have "strip y = y" using assms(3) by (rule strip_fixed)
  finally show ?thesis .
qed

section \<open>Facts about the brace search\<close>

lemma lazy_none: "lazy_to_brace s = None \<longleftrightarrow> 0x7D \<notin> set s"
  by (induction s) (auto split: option.splits)

lemma lazy_complete:
  "0x7D \<notin> set body \<Longrightarrow> lazy_to_brace (body @ 0x7D # rest) = Some (body @ [0x7D])"
  by (induction body) auto

lemma lazy_sound:
  "lazy_to_brace s = Some m \<Longrightarrow>
   \<exists>body rest. s = body @ 0x7D # rest \<and> 0x7D \<notin> set body \<and> m = body @ [0x7D]"
proof (induction s arbitrary: m)
  case Nil
  then show ?case by simp
next
  case (Cons c cs)
  show ?case
  proof (cases "c = 0x7D")
    case True
    with Cons.prems have "m = [] @ [0x7D]" by simp
    moreover have "c # cs = [] @ 0x7D # cs" using True by simp
    ultimately show ?thesis by (metis empty_iff list.set(1))
  next
    case False
    with Cons.prems obtain m' where m': "lazy_to_brace cs = Some m'" "m = c # m'"
      by (auto split: option.splits)
    from Cons.IH[OF m'(1)] obtain body rest where
      b: "cs = body @ 0x7D # rest" "0x7D \<notin> set body" "m' = body @ [0x7D]" by blast
    have "c # cs = (c # body) @ 0x7D # rest" "0x7D \<notin> set (c # body)" "m = (c # body) @ [0x7D]"
      using b m'(2) False by simp_all
    then show ?thesis by blast
  qed
qed

lemma re_search_complete:
  "0x7B \<notin> set pre \<Longrightarrow> 0x7D \<notin> set body \<Longrightarrow>
   re_search (pre @ 0x7B # body @ 0x7D # rest) = Some (0x7B # body @ [0x7D])"
proof (induction pre)
  case Nil
  then show ?case by (simp add: match_here_def lazy_complete)
next
  case (Cons c pre)
  then show ?case by (simp add: match_here_def)
qed

lemma re_search_sound:
  "re_search s = Some m \<Longrightarrow>
   \<exists>pre body rest. s = pre @ 0x7B # body @ 0x7D # rest \<and> 0x7B \<notin> set pre \<and> 0x7D \<notin> set body
      \<and> m = 0x7B # body @ [0x7D]"
proof (induction s)
  case Nil
  then show ?case by (simp add: match_here_def)
next
  case (Cons c cs)
  show ?case
  proof (cases "match_here (c # cs)")
    case (Some m')
    with Cons.prems have mm: "m' = m" by simp
    from Some have c: "c = 0x7B" by (auto simp: match_here_def split: if_splits)
    with Some mm obtain l where l: "lazy_to_brace cs = Some l" "m = 0x7B # l"
      by (auto simp: match_here_def split: option.splits)
    from lazy_sound[OF l(1)] obtain body rest where
      b: "cs = body @ 0x7D # rest" "0x7D \<notin> set body" "l = body @ [0x7D]" by blast
    have "c # cs = [] @ 0x7B # body @ 0x7D # rest" using c b(1) by simp
    moreover have "0x7B \<notin> set ([]::nat list)" by simp
    ultimately show ?thesis using b(2,3) l(2) by blast
  next
    case None
    with Cons.prems have "re_search cs = Some m" by simp
    from Cons.IH[OF this] obtain pre body rest where
      b: "cs = pre @ 0x7B # body @ 0x7D # rest" "0x7B \<notin> set pre" "0x7D \<notin> set body"
         "m = 0x7B # body @ [0x7D]" by blast
    have "c \<noteq> 0x7B"
    proof
      assume c: "c = 0x7B"
      have "0x7D \<in> set cs" using b(1) by simp
      then have "lazy_to_brace cs \<noteq> None" by (simp add: lazy_none)
      with c None show False by (auto simp: match_here_def split: option.splits)
    qed
    then have "c # cs = (c # pre) @ 0x7B # body @ 0x7D # rest" "0x7B \<notin> set (c # pre)"
      using b(1,2) by simp_all
    then show ?thesis using b(3,4) by blast
  qed
qed

lemma re_search_iff:
  "re_search s = Some m \<longleftrightarrow>
   (\<exists>pre body rest. s = pre @ 0x7B # body @ 0x7D # rest \<and> 0x7B \<notin> set pre \<and> 0x7D \<notin> set body
      \<and> m = 0x7B # body @ [0x7D])"
  using re_search_sound re_search_complete by blast

lemma re_search_none:
  "re_search s = None \<longleftrightarrow> \<not> (\<exists>pre mid. s = pre @ 0x7B # mid \<and> 0x7D \<in> set mid)"
proof
  assume n: "re_search s = None"
  show "\<not> (\<exists>pre mid. s = pre @ 0x7B # mid \<and> 0x7D \<in> set mid)"
  proof
    assume "\<exists>pre mid. s = pre @ 0x7B # mid \<and> 0x7D \<in> set mid"
    then obtain pre mid where s: "s = pre @ 0x7B # mid" "0x7D \<in> set mid" by blast
    have "0x7B \<in> set s" using s(1) by simp
    then obtain p1 r1 where p: "s = p1 @ 0x7B # r1" "0x7B \<notin> set p1"
      by (meson split_list_first)
    have "0x7D \<in> set r1"
    proof -
      have "length p1 \<le> length pre"
      proof (rule ccontr)
        assume "\<not> length p1 \<le> length pre"
        then have "length pre < length p1" by simp
        then have "p1 ! length pre = s ! length pre" using p(1) by (simp add: nth_append)
        also have "\<dots> = 0x7B" using s(1) by simp
        finally have "0x7B \<in> set p1" using \<open>length pre < length p1\<close> by (metis nth_mem)
        with p(2) show False by simp
      qed
      then have "drop (Suc (length pre)) s = drop (Suc (length pre) - Suc (length p1)) (drop (Suc (length p1)) s)"
        by simp
      moreover have "drop (Suc (length pre)) s = mid" using s(1) by simp
      moreover have "drop (Suc (length p1)) s = r1" using p(1) by simp
      ultimately have "mid = drop (Suc (length pre) - Suc (length p1)) r1" by simp
      then show ?thesis using s(2) by (metis in_set_dropD)
    qed
    then obtain body rest where r: "r1 = body @ 0x7D # rest" "0x7D \<notin> set body"
      by (meson split_list_first)
    have "re_search s = Some (0x7B # body @ [0x7D])"
      unfolding p(1) r(1) using p(2) r(2) by (rule re_search_complete)
    with n show False by simp
  qed
next
  assume a: "\<not> (\<exists>pre mid. s = pre @ 0x7B # mid \<and> 0x7D \<in> set mid)"
  show "re_search s = None"
  proof (rule ccontr)
    assume "re_search s \<noteq> None"
    then obtain m where "re_search s = Some m" by blast
    from re_search_sound[OF this] obtain pre body rest where
      "s = pre @ 0x7B # body @ 0x7D # rest" by blast
    then have "s = pre @ 0x7B # (body @ 0x7D # rest) \<and> 0x7D \<in> set (body @ 0x7D # rest)" by simp
    with a show False by blast
  qed
qed

section \<open>Facts about the extractor\<close>

lemma extract_sample: "extract_json_from_response sample_response = Inr sample_json"
  by (simp add: sample_response_def sample_json_def extract_json_from_response_def lit_def
        match_here_def)

lemma extract_json_iff:
  "extract_json_from_response r = Inr m \<longleftrightarrow>
   (\<exists>pre body rest. r = pre @ 0x7B # body @ 0x7D # rest \<and> 0x7B \<notin> set pre \<and> 0x7D \<notin> set body
      \<and> m = 0x7B # body @ [0x7D])"
  unfolding re_search_iff[symmetric]
  by (simp add: extract_json_from_response_def split: option.splits)

lemma extract_json_none:
  "\<not> (\<exists>pre mid. r = pre @ 0x7B # mid \<and> 0x7D \<in> set mid) \<Longrightarrow>
   extract_json_from_response r = Inl (Exn ValueError (lit ''No valid JSON object found in response''))"
  unfolding re_search_none[symmetric]
  by (simp add: extract_json_from_response_def)

lemma extract_metadata_no_object:
  assumes "invoke_extract env i post = Inr r"
    "extract_json_from_response r = Inl (Exn ValueError (lit ''No valid JSON object found in response''))"
  shows "extract_metadata env i post =
    (Inl (Exn Exception (lit ''Error extracting metadata: '' @ lit ''No valid JSON object found in response'')),
     [Log ERROR (lit ''Error extracting metadata: '' @ lit ''No valid JSON object found in response'')])"
  using assms by (simp add: extract_metadata_def extract_metadata_try_def Let_def)

lemma extract_metadata_try_parsed:
  "invoke_extract env i post = Inr r \<Longrightarrow> extract_json_from_response r = Inr m \<Longrightarrow>
   extract_metadata_try env i post =
     (case json_parse env m of Inl e \<Rightarrow> Inl e | Inr res \<Rightarrow> validate_metadata env res)"
  by (simp add: extract_metadata_try_def)

lemma validate_sample: "validate_metadata env (JObj sample_metadata) = Inr sample_metadata"
  by (simp add: validate_metadata_def sample_metadata_def lit_def)

lemma validate_iff:
  "validate_metadata env res = Inr d \<longleftrightarrow>
   (res = JObj d \<and> map_of d (lit ''line_count'') \<noteq> None \<and> map_of d (lit ''language'') \<noteq> None
      \<and> map_of d (lit ''tags'') \<noteq> None
      \<and> (map_of d (lit ''language'') = Some (JStr (lit ''English''))
           \<or> map_of d (lit ''language'') = Some (JStr (lit ''Sinhala''))))"
  by (cases res) (auto simp: validate_metadata_def split: option.splits if_splits)

lemma validate_error:
  "validate_metadata env res = Inl e \<Longrightarrow> cls e = ValueError"
  by (cases res) (auto simp: validate_metadata_def split: option.splits if_splits)

lemma extract_metadata_validated:
  assumes "invoke_extract env i post = Inr content"
    "extract_json_from_response content = Inr json_str"
    "json_parse env json_str = Inr res"
  shows "extract_metadata env i post =
    (case validate_metadata env res of
       Inr d \<Rightarrow> (Inr d, [])
     | Inl e \<Rightarrow> (Inl (Exn Exception (lit ''Error extracting metadata: '' @ msg e)),
                 [Log ERROR (lit ''Error extracting metadata: '' @ msg e)]))"
proof (cases "validate_metadata env res")
  case (Inl e)
  then have "cls e = ValueError" by (rule validate_error)
  with Inl assms show ?thesis
    by (simp add: extract_metadata_def extract_metadata_try_def Let_def)
next
  case (Inr d)
  with assms show ?thesis
    by (simp add: extract_metadata_def extract_metadata_try_def)
qed

section \<open>Facts about the loop\<close>

lemma excerpt_has_text: "excerpt env post = Inr ex \<Longrightarrow> map_of post (lit ''text'') \<noteq> None"
  by (auto simp: excerpt_def subscript_text_def split: option.splits)

lemma excerpt_missing_text:
  "map_of post (lit ''text'') = None \<Longrightarrow> excerpt env post = Inl (Exn KeyError (quoted (lit ''text'')))"
  by (simp add: excerpt_def subscript_text_def)

lemma iteration_excerpt_fails:
  "excerpt env post = Inl e \<Longrightarrow> iteration env i post = (Inl e, [])"
  by (simp add: iteration_def try_body_def)

lemma iteration_success:
  assumes "excerpt env post = Inr ex" "enrich_post env i post = (Inr p, evs)"
  shows "iteration env i post =
    (Inr (Some p),
     Log INFO (lit ''Processing post '' @ str_nat i @ lit '': '' @ ex @ lit ''...'') # evs)"
  using assms excerpt_has_text[OF assms(1)]
  by (simp add: iteration_def try_body_def Let_def)

lemma iteration_failure:
  assumes "excerpt env post = Inr ex" "enrich_post env i post = (Inl e, evs)"
  shows "iteration env i post =
    (Inr None,
     Log INFO (lit ''Processing post '' @ str_nat i @ lit '': '' @ ex @ lit ''...'') # evs
       @ [Log ERROR (error_msg i ex e), Print (error_msg i ex e)])"
  using assms excerpt_has_text[OF assms(1)]
  by (simp add: iteration_def try_body_def Let_def)

lemma loop_skip:
  assumes "iteration env i post = (Inr None, evs)"
  shows "loop env i (post # rest) = (case loop env (Suc i) rest of (r, evs') \<Rightarrow> (r, evs @ evs'))"
  using assms by (auto split: prod.splits sum.splits)

lemma loop_keep:
  assumes "iteration env i post = (Inr (Some p), evs)"
  shows "loop env i (post # rest) =
    (case loop env (Suc i) rest of
       (Inl e, evs') \<Rightarrow> (Inl e, evs @ evs')
     | (Inr enriched, evs') \<Rightarrow> (Inr (p # enriched), evs @ evs'))"
  using assms by (auto split: prod.splits sum.splits)

lemma loop_abort:
  assumes "iteration env i post = (Inl e, evs)"
  shows "loop env i (post # rest) = (Inl e, evs)"
  using assms by simp

lemma post_error_msg: "is_post_error (Log ERROR (error_msg i ex e))"
  by (simp add: is_post_error_def error_msg_def lit_def)

lemma not_post_error [simp]:
  "\<not> is_post_error (Log INFO m)" "\<not> is_post_error (Log WARNING m)" "\<not> is_post_error (Print m)"
  by (simp_all add: is_post_error_def)

lemma extract_metadata_events:
  "extract_metadata env i t = (r, evs) \<Longrightarrow> filter is_post_error evs = []"
  by (auto simp: extract_metadata_def Let_def is_post_error_def lit_def
           split: sum.splits if_splits)

lemma extract_metadata_ok_events:
  "extract_metadata env i t = (Inr d, evs) \<Longrightarrow> evs = []"
  by (auto simp: extract_metadata_def Let_def split: sum.splits if_splits)

lemma enrich_post_events:
  "enrich_post env i post = (r, evs) \<Longrightarrow> filter is_post_error evs = []"
  by (auto simp: enrich_post_def split: sum.splits prod.splits dest: extract_metadata_events)

lemma enrich_post_ok_events:
  "enrich_post env i post = (Inr p, evs) \<Longrightarrow> evs = []"
  by (auto simp: enrich_post_def split: sum.splits prod.splits dest: extract_metadata_ok_events)

lemma loop_characterised:
  assumes "\<forall>p\<in>set posts. \<not> isl (excerpt env p)"
  shows "\<exists>evs. loop env i posts =
           (Inr [projr (fst (enrich_post env j p)).
                   (j, p) \<leftarrow> enumerate i posts, \<not> isl (fst (enrich_post env j p))], evs)
         \<and> filter is_post_error evs =
           [Log ERROR (error_msg j (projr (excerpt env p)) (projl (fst (enrich_post env j p)))).
              (j, p) \<leftarrow> enumerate i posts, isl (fst (enrich_post env j p))]"
  using assms
proof (induction posts arbitrary: i)
  case Nil
  then show ?case by simp
next
  case (Cons p ps)
  from Cons.prems obtain ex where ex: "excerpt env p = Inr ex"
    by (cases "excerpt env p") auto
  from Cons.prems have "\<forall>p\<in>set ps. \<not> isl (excerpt env p)" by simp
  from Cons.IH[OF this, of "Suc i"] obtain evs' where
    l: "loop env (Suc i) ps =
           (Inr [projr (fst (enrich_post env j p)).
                   (j, p) \<leftarrow> enumerate (Suc i) ps, \<not> isl (fst (enrich_post env j p))], evs')"
    and f: "filter is_post_error evs' =
           [Log ERROR (error_msg j (projr (excerpt env p)) (projl (fst (enrich_post env j p)))).
              (j, p) \<leftarrow> enumerate (Suc i) ps, isl (fst (enrich_post env j p))]"
    by blast
  obtain r evs0 where r: "enrich_post env i p = (r, evs0)"
    by (cases "enrich_post env i p") auto
  have n: "filter is_post_error evs0 = []"
    using r by (rule enrich_post_events)
  show ?case
  proof (cases r)
    case (Inl e)
    have "iteration env i p =
      (Inr None, Log INFO (lit ''Processing post '' @ str_nat i @ lit '': '' @ ex @ lit ''...'') # evs0
         @ [Log ERROR (error_msg i ex e), Print (error_msg i ex e)])"
      using ex r[unfolded Inl] by (rule iteration_failure)
    from loop_skip[OF this, of ps] l f n r Inl ex show ?thesis
      by (simp add: post_error_msg)
  next
    case (Inr q)
    have "iteration env i p =
      (Inr (Some q), Log INFO (lit ''Processing post '' @ str_nat i @ lit '': '' @ ex @ lit ''...'') # evs0)"
      using ex r[unfolded Inr] by (rule iteration_success)
    from loop_keep[OF this, of ps] l f n r Inr ex show ?thesis
      by simp
  qed
qed

section \<open>Evaluating the samples\<close>

lemma enrich_post_success:
  assumes "map_of post (lit ''text'') = Some (JStr t)" "clean_text (nfkc env) t = Inr c"
    "extract_metadata env i c = (Inr md, evs)" "clean_metadata env md = Inr md'"
  shows "enrich_post env i post = (Inr (dict_update (dict_set (lit ''text'') (JStr c) post) md'), evs)"
  using assms by (simp add: enrich_post_def subscript_text_def clean_text_any_def)

lemma enrich_post_extract_fails:
  assumes "map_of post (lit ''text'') = Some (JStr t)" "clean_text (nfkc env) t = Inr c"
    "extract_metadata env i c = (Inl e, evs)"
  shows "enrich_post env i post = (Inl e, evs)"
  using assms by (simp add: enrich_post_def subscript_text_def clean_text_any_def)

lemma excerpt_str:
  "map_of post (lit ''text'') = Some (JStr t) \<Longrightarrow> excerpt env post = Inr (take 100 t)"
  by (simp add: excerpt_def subscript_text_def slice100_def format_def)

lemma clean_text_words:
  "clean_text nf (lit ''Post zero'') = Inr (lit ''Post zero'')"
  "clean_text nf (lit ''Post one'') = Inr (lit ''Post one'')"
  "clean_text nf (lit ''Post two'') = Inr (lit ''Post two'')"
  "clean_text nf (lit ''Post three'') = Inr (lit ''Post three'')"
  "clean_text nf (lit ''Post four'') = Inr (lit ''Post four'')"
  "clean_text nf (lit ''English'') = Inr (lit ''English'')"
  "clean_text nf (lit ''Motivation'') = Inr (lit ''Motivation'')"
  "clean_text nf (lit ''Career'') = Inr (lit ''Career'')"
  "clean_text nf (lit ''LLM'') = Inr (lit ''LLM'')"
  "clean_text nf (lit ''Growth'') = Inr (lit ''Growth'')"
  "clean_text nf (lit ''Mindset'') = Inr (lit ''Mindset'')"
  by (rule clean_text_fixed; simp add: lit_def kept_def is_surrogate_def py_isspace_def)+

lemma sample_env_sel:
  "nfkc (sample_env a b) = (\<lambda>t. t)" "invoke_extract (sample_env a b) = a"
  "invoke_unify (sample_env a b) = b" "json_parse (sample_env a b) = sample_parse"
  "set_iter (sample_env a b) = remdups" "json_dump (sample_env a b) = (\<lambda>path posts. None)"
  by (simp_all add: sample_env_def)










lemma sample_tags:
  "get_tags ((lit ''text'', JStr t) # sample_metadata) = JArr [JStr (lit ''Motivation'')]"
  by (simp add: get_tags_def sample_metadata_def lit_def)

lemma sample_cleaned_tags:
  "cleaned_tags (sample_env a b) ((lit ''text'', JStr t) # sample_metadata) = Inr [lit ''Motivation'']"
  by (simp add: cleaned_tags_def sample_tags iterate_def clean_text_any_def sample_env_sel
        clean_text_words)

lemma extract_identity: "extract_json_from_response identity_json = Inr identity_json"
  by (simp add: identity_json_def extract_json_from_response_def lit_def match_here_def)

lemma sample_parse_identity: "sample_parse identity_json = Inr (JObj identity_tag_map)"
  by (simp add: sample_parse_def identity_json_def sample_json_def french_json_def
        author_json_def lit_def)


lemma clean_identity_map:
  "clean_metadata (sample_env a b) identity_tag_map = Inr identity_tag_map"
  by (simp add: clean_metadata_def identity_tag_map_def clean_value_def sample_env_sel
        clean_text_words)






lemma process_posts_returns:
  assumes "fst (process_posts_try env posts path) = Inr out"
  shows "fst (process_posts env raw (Inr posts) path) = Inr out"
  using assms by (cases "process_posts_try env posts path") (simp add: process_posts_def)


lemma process_posts_try_empty:
  "loop env 0 posts = (Inr [], evs) \<Longrightarrow>
   process_posts_try env posts path = (Inl (Exn ValueError no_posts), evs @ [Log ERROR no_posts])"
  by (simp add: process_posts_try_def)

lemma process_posts_wraps:
  assumes "process_posts_try env posts path = (Inl e, evs)"
    "cls e \<noteq> FileNotFoundError" "cls e \<noteq> JSONDecodeError"
  shows "process_posts env raw (Inr posts) path =
    (Inl (Exn Exception (lit ''Error processing posts: '' @ msg e)),
     evs @ [Log ERROR (lit ''Error processing posts: '' @ msg e)])"
  using assms by (simp add: process_posts_def)

section \<open>Facts about the merge and the tag rewrite\<close>

lemma dict_set_other: "k' \<noteq> k \<Longrightarrow> map_of (dict_set k v d) k' = map_of d k'"
  by (induction d) auto

lemma dict_set_same: "map_of (dict_set k v d) k = Some v"
  by (induction d) auto

lemma dict_update_other: "k \<notin> fst ` set kvs \<Longrightarrow> map_of (dict_update d kvs) k = map_of d k"
  by (induction d kvs rule: dict_update.induct) (auto simp: dict_set_other)

lemma collect_Cons:
  "collect (r # rs) = Inr ys \<longleftrightarrow> (\<exists>x xs. r = Inr x \<and> collect rs = Inr xs \<and> ys = x # xs)"
  by (auto split: sum.splits)

lemma collect_all2:
  "collect (map f xs) = Inr ys \<Longrightarrow> list_all2 (\<lambda>x y. f x = Inr y) xs ys"
proof (induction xs arbitrary: ys)
  case Nil
  then show ?case by simp
next
  case (Cons x xs)
  from Cons.prems obtain y ys' where "f x = Inr y" "collect (map f xs) = Inr ys'" "ys = y # ys'"
    by (auto split: sum.splits)
  with Cons.IH show ?case by simp
qed

lemma clean_metadata_keys:
  assumes "clean_metadata env md = Inr md'"
  shows "map fst md' = map fst md"
proof -
  have "list_all2 (\<lambda>x y. (case x of (key, v) \<Rightarrow> case clean_value env v of
                                 Inl e \<Rightarrow> Inl e
                               | Inr v' \<Rightarrow> Inr (key, v')) = Inr y) md md'"
    using assms unfolding clean_metadata_def by (rule collect_all2)
  then have "list_all2 (\<lambda>x y. fst y = fst x) md md'"
    by (rule list_all2_mono) (auto split: sum.splits)
  then show ?thesis
    by (induction md md' rule: list_all2_induct) auto
qed

lemma enrich_post_frame:
  assumes "enrich_post env i post = (Inr p, evs)"
  shows "\<forall>k. k \<noteq> lit ''text'' \<and> k \<notin> extracted_keys env i post \<longrightarrow> map_of p k = map_of post k"
proof -
  from assms obtain v c md md' where
    v: "subscript_text post = Inr v" and c: "clean_text_any env v = Inr c"
    and md: "extract_metadata env i c = (Inr md, evs)" and md': "clean_metadata env md = Inr md'"
    and p: "p = dict_update (dict_set (lit ''text'') (JStr c) post) md'"
    by (auto simp: enrich_post_def split: sum.splits prod.splits)
  have keys: "extracted_keys env i post = fst ` set md'"
    using v c md clean_metadata_keys[OF md'] 
    by (simp add: extracted_keys_def) (metis list.set_map)
  show ?thesis
    unfolding keys p by (simp add: dict_update_other dict_set_other)
qed

lemma validate_keys:
  "validate_metadata env res = Inr d \<Longrightarrow>
   {lit ''line_count'', lit ''language'', lit ''tags''} \<subseteq> fst ` set d"
  unfolding validate_iff by (auto dest!: map_of_SomeD simp: image_iff) force+

lemma rewrite_frame:
  "rewrite_tags env m p = Inr p' \<Longrightarrow> k \<noteq> lit ''tags'' \<Longrightarrow> map_of p' k = map_of p k"
  by (auto simp: rewrite_tags_def dict_set_other split: sum.splits)

lemma loop_excerpts:
  "fst (loop env i posts) = Inr enriched \<Longrightarrow> \<forall>p\<in>set posts. \<not> isl (excerpt env p)"
proof (induction posts arbitrary: i enriched)
  case Nil
  then show ?case by simp
next
  case (Cons p ps)
  have e: "\<not> isl (excerpt env p)"
  proof
    assume "isl (excerpt env p)"
    then obtain e where "excerpt env p = Inl e" by (cases "excerpt env p") auto
    then have "iteration env i p = (Inl e, [])" by (rule iteration_excerpt_fails)
    then have "loop env i (p # ps) = (Inl e, [])" by (rule loop_abort)
    with Cons.prems show False by simp
  qed
  from Cons.prems obtain enriched' where "fst (loop env (Suc i) ps) = Inr enriched'"
    by (auto split: prod.splits sum.splits)
  from Cons.IH[OF this] e show ?case by simp
qed

lemma comprehension_map_filter:
  "[f j p. (j, p) \<leftarrow> xs, P j p] = map (\<lambda>(j, p). f j p) (filter (\<lambda>(j, p). P j p) xs)"
  by (induction xs) auto

lemma extract_metadata_keys:
  assumes "extract_metadata env i c = (Inr md, evs)"
  shows "{lit ''line_count'', lit ''language'', lit ''tags''} \<subseteq> fst ` set md"
proof -
  from assms have "extract_metadata_try env i c = Inr md"
    by (auto simp: extract_metadata_def Let_def split: sum.splits if_splits)
  then obtain res where "validate_metadata env res = Inr md"
    by (auto simp: extract_metadata_try_def split: sum.splits)
  then show ?thesis by (rule validate_keys)
qed

lemma enrich_post_keys:
  assumes "enrich_post env i post = (Inr p, evs)"
  shows "{lit ''line_count'', lit ''language'', lit ''tags''} \<subseteq> extracted_keys env i post"
proof -
  from assms obtain v c md where
    v: "subscript_text post = Inr v" and c: "clean_text_any env v = Inr c"
    and md: "extract_metadata env i c = (Inr md, evs)"
    by (auto simp: enrich_post_def split: sum.splits prod.splits)
  from extract_metadata_keys[OF md] v c md show ?thesis
    by (simp add: extracted_keys_def)
qed

lemma process_posts_stages:
  assumes "fst (process_posts env raw (Inr posts) path) = Inr out"
  shows "\<exists>enriched m. fst (loop env 0 posts) = Inr enriched
           \<and> collect (map (rewrite_tags env m) enriched) = Inr out"
proof -
  from assms have t: "fst (process_posts_try env posts path) = Inr out"
    by (auto simp: process_posts_def split: prod.splits sum.splits if_splits)
  then obtain enriched evs where l: "loop env 0 posts = (Inr enriched, evs)"
    by (cases "loop env 0 posts"; cases "fst (loop env 0 posts)")
       (auto simp: process_posts_try_def)
  from t l obtain m where "collect (map (rewrite_tags env m) enriched) = Inr out"
    by (auto simp: process_posts_try_def split: prod.splits sum.splits if_splits option.splits)
  with l show ?thesis by auto
qed

lemma extract_author: "extract_json_from_response author_json = Inr author_json"
  by (simp add: author_json_def extract_json_from_response_def lit_def match_here_def)

lemma sample_parse_author: "sample_parse author_json = Inr (JObj author_metadata)"
  by (simp add: sample_parse_def author_json_def sample_json_def french_json_def lit_def)

lemma validate_author: "validate_metadata env (JObj author_metadata) = Inr author_metadata"
  by (simp add: validate_metadata_def author_metadata_def lit_def)

lemma extract_metadata_author:
  "extract_metadata (sample_env (\<lambda>i t. Inr author_json) b) i t = (Inr author_metadata, [])"
  by (simp add: extract_metadata_def extract_metadata_try_def sample_env_sel extract_author
        sample_parse_author validate_author)

lemma clean_author_metadata:
  "clean_metadata (sample_env a b) author_metadata = Inr author_metadata"
  by (simp add: clean_metadata_def author_metadata_def clean_value_def clean_item_def
        sample_env_sel clean_text_words)

lemma authored_text: "map_of authored_post (lit ''text'') = Some (JStr (lit ''Post zero''))"
  by (simp add: authored_post_def)

lemma enrich_authored:
  "enrich_post (sample_env (\<lambda>i t. Inr author_json) b) 0 authored_post = (Inr authored_enriched, [])"
proof -
  have u: "dict_update (dict_set (lit ''text'') (JStr (lit ''Post zero'')) authored_post)
             author_metadata = authored_enriched"
    by (simp add: authored_post_def author_metadata_def authored_enriched_def lit_def)
  show ?thesis
    by (subst enrich_post_success[where t = "lit ''Post zero''" and c = "lit ''Post zero''"
          and md = author_metadata and md' = author_metadata and evs = "[]"])
       (simp_all add: authored_text sample_env_sel clean_text_words extract_metadata_author
          clean_author_metadata u)
qed

lemma authored_keys:
  "extracted_keys (sample_env (\<lambda>i t. Inr author_json) b) 0 authored_post
     = {lit ''line_count'', lit ''language'', lit ''tags'', lit ''author''}"
  by (simp add: extracted_keys_def subscript_text_def authored_text clean_text_any_def
        sample_env_sel clean_text_words extract_metadata_author)
     (simp add: author_metadata_def)

lemma authored_loop:
  "fst (loop (sample_env (\<lambda>i t. Inr author_json) b) 0 [authored_post]) = Inr [authored_enriched]"
proof -
  have "iteration (sample_env (\<lambda>i t. Inr author_json) b) 0 authored_post =
    (Inr (Some authored_enriched),
     Log INFO (lit ''Processing post '' @ str_nat 0 @ lit '': '' @ take 100 (lit ''Post zero'')
               @ lit ''...'') # [])"
    using excerpt_str[OF authored_text] enrich_authored by (rule iteration_success)
  from loop_keep[OF this, of "[]"] show ?thesis by simp
qed

lemma authored_tags: "get_tags authored_enriched = JArr [JStr (lit ''Career'')]"
  by (simp add: get_tags_def authored_enriched_def lit_def)

lemma authored_unified:
  "get_unified_tags (sample_env a (\<lambda>t. Inr identity_json)) [authored_enriched]
     = (Inr identity_tag_map, [])"
proof -
  have c: "cleaned_tags (sample_env a (\<lambda>t. Inr identity_json)) authored_enriched = Inr [lit ''Career'']"
    by (simp add: cleaned_tags_def authored_tags iterate_def clean_text_any_def sample_env_sel
          clean_text_words)
  have t: "get_unified_tags_try (sample_env a (\<lambda>t. Inr identity_json)) (lit ''Career'')
             = Inr identity_tag_map"
    by (simp add: get_unified_tags_try_def sample_env_sel clean_text_words extract_identity
          sample_parse_identity)
  show ?thesis
    by (simp add: get_unified_tags_def c sample_env_sel strs_def t)
qed

lemma authored_rewrite:
  "rewrite_tags (sample_env a b) identity_tag_map authored_enriched = Inr authored_enriched"
proof -
  have n: "new_tag identity_tag_map (JStr (lit ''Career'')) = Inr (JStr (lit ''Career''))"
    by (simp add: new_tag_def tag_get_def hashable_def identity_tag_map_def lit_def)
  have d: "dict_set (lit ''tags'') (JArr [JStr (lit ''Career'')]) authored_enriched
             = authored_enriched"
    by (simp add: authored_enriched_def lit_def)
  show ?thesis
    by (simp add: rewrite_tags_def authored_tags iterate_def n sample_env_sel d
          del: dict_set.simps)
qed

lemma authored_processed:
  "fst (process_posts (sample_env (\<lambda>i t. Inr author_json) (\<lambda>t. Inr identity_json)) raw
          (Inr [authored_post]) None) = Inr [authored_enriched]"
proof -
  let ?A = "sample_env (\<lambda>i t. Inr author_json) (\<lambda>t. Inr identity_json)"
  obtain evs where "loop ?A 0 [authored_post] = (Inr [authored_enriched], evs)"
    using authored_loop[of "\<lambda>t. Inr identity_json"] by (cases "loop ?A 0 [authored_post]") auto
  then have "fst (process_posts_try ?A [authored_post] None) = Inr [authored_enriched]"
    by (simp add: process_posts_try_def authored_unified clean_identity_map authored_rewrite)
  then show ?thesis by (rule process_posts_returns)
qed

lemma collect_fixed: "\<forall>x\<in>set xs. f x = Inr x \<Longrightarrow> collect (map f xs) = Inr xs"
  by (induction xs) auto

lemma get_tags_set: "get_tags (dict_set (lit ''tags'') v post) = v"
  by (simp add: get_tags_def dict_set_same)

lemma extract_chain: "extract_json_from_response chain_json = Inr chain_json"
  by (simp add: chain_json_def extract_json_from_response_def lit_def match_here_def)

lemma sample_parse_chain: "sample_parse chain_json = Inr (JObj chain_tag_map)"
  by (simp add: sample_parse_def chain_json_def identity_json_def sample_json_def french_json_def
        author_json_def lit_def)

lemma chain_unified:
  "get_unified_tags (sample_env a (\<lambda>t. Inr chain_json)) [(lit ''text'', JStr t) # sample_metadata]
     = (Inr chain_tag_map, [])"
proof -
  have "get_unified_tags_try (sample_env a (\<lambda>t. Inr chain_json)) (lit ''Motivation'')
          = Inr chain_tag_map"
    by (simp add: get_unified_tags_try_def sample_env_sel clean_text_words extract_chain
          sample_parse_chain)
  then show ?thesis
    by (simp add: get_unified_tags_def sample_cleaned_tags sample_env_sel strs_def)
qed

lemma clean_chain_map: "clean_metadata (sample_env a b) chain_tag_map = Inr chain_tag_map"
  by (simp add: clean_metadata_def chain_tag_map_def clean_value_def sample_env_sel
        clean_text_words)

section \<open>Which failures carry which text\<close>

lemma other_text:
  "quoted s \<noteq> no_posts" "quoted s @ t \<noteq> no_posts"
  "lit ''unhashable type: '' @ s \<noteq> no_posts"
  "lit ''invalid utf-8'' \<noteq> no_posts"
  "lit ''Failed to parse tag unification response: '' @ s \<noteq> no_posts"
  "lit ''Error unifying tags: '' @ s \<noteq> no_posts"
  by (simp_all add: no_posts_def lit_def quoted_def)

lemma subscript_text_error: "subscript_text p = Inl e \<Longrightarrow> msg e = quoted (lit ''text'')"
  by (auto simp: subscript_text_def split: option.splits)

lemma slice100_error:
  "slice100 v = Inl e \<Longrightarrow>
   msg e = lit ''unhashable type: '' @ quoted (lit ''slice'')
   \<or> msg e = quoted (type_name v) @ lit '' object is not subscriptable''"
  by (cases v) (auto simp: slice100_def)

lemma excerpt_error:
  assumes "excerpt env p = Inl e"
  shows "msg e \<noteq> no_posts"
proof (cases "subscript_text p")
  case (Inl e')
  with assms have "e' = e" by (simp add: excerpt_def)
  with Inl have "msg e = quoted (lit ''text'')" using subscript_text_error by blast
  then show ?thesis by (simp add: other_text)
next
  case (Inr v)
  with assms have "slice100 v = Inl e"
    by (auto simp: excerpt_def split: sum.splits)
  from slice100_error[OF this] show ?thesis
    by (auto simp: other_text)
qed

lemma iteration_error: "iteration env i p = (Inl e, evs) \<Longrightarrow> excerpt env p = Inl e"
  by (auto simp: iteration_def split: prod.splits sum.splits)

lemma loop_error: "fst (loop env i posts) = Inl e \<Longrightarrow> msg e \<noteq> no_posts"
proof (induction posts arbitrary: i)
  case Nil
  then show ?case by simp
next
  case (Cons p ps)
  obtain r evs where it: "iteration env i p = (r, evs)" by (cases "iteration env i p") auto
  show ?case
  proof (cases r)
    case (Inl e')
    with it Cons.prems have "e' = e" by simp
    with it Inl have "excerpt env p = Inl e" using iteration_error by blast
    then show ?thesis by (rule excerpt_error)
  next
    case (Inr x)
    with it Cons.prems have "fst (loop env (Suc i) ps) = Inl e"
      by (auto split: prod.splits sum.splits)
    then show ?thesis by (rule Cons.IH)
  qed
qed

lemma emit_error: "emit c r = Inl e \<Longrightarrow> r = Inl e"
  by (auto simp: emit_def split: sum.splits)

lemma emit_bad: "r = Inl e \<longrightarrow> Inl e = bad_utf8 \<Longrightarrow> emit c r = Inl e \<Longrightarrow> Inl e = bad_utf8"
  by (auto simp: emit_def split: sum.splits)

lemma decode_error: "utf8_decode bs = Inl e \<Longrightarrow> Inl e = bad_utf8"
proof (induction bs arbitrary: e rule: length_induct)
  case (1 bs)
  have ih: "utf8_decode r = Inl e \<longrightarrow> Inl e = bad_utf8" if "length r < length bs" for r
    using 1(1) that by blast
  show ?case
  proof (cases bs)
    case Nil
    with 1(2) show ?thesis by simp
  next
    case (Cons b0 r0)
    note bs = Cons
    show ?thesis
    proof (cases "b0 < 0x80")
      case True
      with 1(2) bs have "emit b0 (utf8_decode r0) = Inl e" by simp
      with ih[of r0] bs show ?thesis by (auto intro: emit_bad)
    next
      case n1: False
      show ?thesis
      proof (cases "0xC2 \<le> b0 \<and> b0 < 0xE0")
        case True
        show ?thesis
        proof (cases r0)
          case Nil
          with 1(2) bs n1 True show ?thesis by simp
        next
          case (Cons b1 r1)
          with 1(2) bs n1 True have
            "(if continuation b1 then emit ((b0 - 0xC0) * 64 + (b1 - 0x80)) (utf8_decode r1)
              else bad_utf8) = Inl e" by simp
          with ih[of r1] bs Cons show ?thesis
            by (auto split: if_splits intro: emit_bad)
        qed
      next
        case n2: False
        show ?thesis
        proof (cases "0xE0 \<le> b0 \<and> b0 < 0xF0")
          case True
          show ?thesis
          proof (cases r0)
            case Nil
            with 1(2) bs n1 n2 True show ?thesis by simp
          next
            case c1: (Cons b1 r1)
            show ?thesis
            proof (cases r1)
              case Nil
              with 1(2) bs n1 n2 True c1 show ?thesis by simp
            next
              case (Cons b2 r2)
              with 1(2) bs n1 n2 True c1 have
                "(let c = (b0 - 0xE0) * 4096 + (b1 - 0x80) * 64 + (b2 - 0x80)
                  in if continuation b1 \<and> continuation b2 \<and> 0x800 \<le> c \<and> \<not> is_surrogate c
                     then emit c (utf8_decode r2) else bad_utf8) = Inl e" by simp
              with ih[of r2] bs c1 Cons show ?thesis
                by (auto simp: Let_def split: if_splits intro: emit_bad)
            qed
          qed
        next
          case n3: False
          show ?thesis
          proof (cases "0xF0 \<le> b0 \<and> b0 < 0xF5")
            case True
            show ?thesis
            proof (cases r0)
              case Nil
              with 1(2) bs n1 n2 n3 True show ?thesis by simp
            next
              case c1: (Cons b1 r1)
              show ?thesis
              proof (cases r1)
                case Nil
                with 1(2) bs n1 n2 n3 True c1 show ?thesis by simp
              next
                case c2: (Cons b2 r2)
                show ?thesis
                proof (cases r2)
                  case Nil
                  with 1(2) bs n1 n2 n3 True c1 c2 show ?thesis by simp
                next
                  case (Cons b3 r3)
                  with 1(2) bs n1 n2 n3 True c1 c2 have
                    "(let c = (b0 - 0xF0) * 262144 + (b1 - 0x80) * 4096 + (b2 - 0x80) * 64
                                + (b3 - 0x80)
                      in if continuation b1 \<and> continuation b2 \<and> continuation b3
                            \<and> 0x10000 \<le> c \<and> c < 0x110000
                         then emit c (utf8_decode r3) else bad_utf8) = Inl e" by simp
                  with ih[of r3] bs c1 c2 Cons show ?thesis
                    by (auto simp: Let_def split: if_splits intro: emit_bad)
                qed
              qed
            qed
          next
            case False
            with 1(2) bs n1 n2 n3 show ?thesis by simp
          qed
        qed
      qed
    qed
  qed
qed

lemma clean_text_error:
  "clean_text nf t = Inl e \<Longrightarrow> e = Exn UnicodeDecodeError (lit ''invalid utf-8'')"
proof -
  assume a: "clean_text nf t = Inl e"
  obtain bs where b: "utf8_encode Ignore t = Inr bs" using encode_ignore_total by blast
  with a have "utf8_decode bs = Inl e"
    by (auto simp: clean_text_def split: sum.splits if_splits)
  then have "Inl e = bad_utf8" by (rule decode_error)
  then show ?thesis by (simp add: bad_utf8_def)
qed

lemma collect_error: "collect rs = Inl e \<Longrightarrow> Inl e \<in> set rs"
  by (induction rs) (auto split: sum.splits)

lemma iterate_error: "iterate v = Inl e \<Longrightarrow> msg e \<noteq> no_posts"
  by (cases v) (auto simp: iterate_def other_text)

lemma clean_text_any_error: "clean_text_any env v = Inl e \<Longrightarrow> msg e \<noteq> no_posts"
  by (cases v) (auto simp: clean_text_any_def other_text dest!: clean_text_error)

lemma cleaned_tags_error:
  assumes "cleaned_tags env p = Inl e"
  shows "msg e \<noteq> no_posts"
proof (cases "iterate (get_tags p)")
  case (Inl e')
  with assms have "e' = e" by (simp add: cleaned_tags_def)
  with Inl show ?thesis using iterate_error by blast
next
  case (Inr tags)
  with assms have "collect (map (clean_text_any env) tags) = Inl e"
    by (simp add: cleaned_tags_def)
  then have "Inl e \<in> set (map (clean_text_any env) tags)" by (rule collect_error)
  then show ?thesis using clean_text_any_error by auto
qed

lemma get_unified_tags_error:
  assumes "fst (get_unified_tags env ps) = Inl e"
  shows "msg e \<noteq> no_posts"
proof (cases "collect (map (cleaned_tags env) ps)")
  case (Inl e')
  with assms have "e' = e" by (simp add: get_unified_tags_def)
  with Inl have "Inl e \<in> set (map (cleaned_tags env) ps)" using collect_error by blast
  then show ?thesis using cleaned_tags_error by auto
next
  case (Inr tagss)
  with assms show ?thesis
    by (auto simp: get_unified_tags_def Let_def other_text split: sum.splits if_splits)
qed

lemma clean_item_error: "clean_item env v = Inl e \<Longrightarrow> msg e \<noteq> no_posts"
  by (cases v) (auto simp: clean_item_def other_text split: sum.splits dest!: clean_text_error)

lemma clean_value_error:
  assumes "clean_value env v = Inl e"
  shows "msg e \<noteq> no_posts"
proof (cases v)
  case (JStr s)
  with assms show ?thesis
    by (auto simp: clean_value_def other_text split: sum.splits dest!: clean_text_error)
next
  case (JArr items)
  with assms have "collect (map (clean_item env) items) = Inl e"
    by (auto simp: clean_value_def split: sum.splits)
  then have "Inl e \<in> set (map (clean_item env) items)" by (rule collect_error)
  then show ?thesis using clean_item_error by auto
qed (use assms in \<open>auto simp: clean_value_def\<close>)

lemma clean_metadata_error:
  assumes "clean_metadata env md = Inl e"
  shows "msg e \<noteq> no_posts"
proof -
  from assms have "Inl e \<in> set (map (\<lambda>(key, v). case clean_value env v of
                                 Inl e \<Rightarrow> Inl e
                               | Inr v' \<Rightarrow> Inr (key, v')) md)"
    unfolding clean_metadata_def by (rule collect_error)
  then obtain key v where "clean_value env v = Inl e"
    by (auto split: sum.splits)
  then show ?thesis by (rule clean_value_error)
qed

lemma tag_get_error: "tag_get m t = Inl e \<Longrightarrow> msg e \<noteq> no_posts"
  by (cases t) (auto simp: tag_get_def unhashable_def other_text split: if_splits option.splits)

lemma new_tag_error: "new_tag m t = Inl e \<Longrightarrow> msg e \<noteq> no_posts"
  by (auto simp: new_tag_def unhashable_def other_text split: sum.splits if_splits
        dest: tag_get_error)

lemma rewrite_tags_error:
  assumes "rewrite_tags env m p = Inl e"
  shows "msg e \<noteq> no_posts"
proof (cases "iterate (get_tags p)")
  case (Inl e')
  with assms have "e' = e" by (simp add: rewrite_tags_def)
  with Inl show ?thesis using iterate_error by blast
next
  case (Inr cur)
  with assms have "collect (map (new_tag m) cur) = Inl e"
    by (auto simp: rewrite_tags_def split: sum.splits)
  then have "Inl e \<in> set (map (new_tag m) cur)" by (rule collect_error)
  then show ?thesis using new_tag_error by auto
qed

lemma process_posts_try_error:
  assumes "fst (process_posts_try env posts None) = Inl e"
  shows "(fst (loop env 0 posts) = Inr [] \<and> e = Exn ValueError no_posts) \<or> msg e \<noteq> no_posts"
proof -
  obtain r evs where l: "loop env 0 posts = (r, evs)" by (cases "loop env 0 posts") auto
  show ?thesis
  proof (cases r)
    case (Inl e')
    with l assms have "fst (loop env 0 posts) = Inl e" by (simp add: process_posts_try_def)
    then show ?thesis using loop_error by blast
  next
    case (Inr enriched)
    show ?thesis
    proof (cases "enriched = []")
      case True
      with l Inr assms show ?thesis by (simp add: process_posts_try_def)
    next
      case False
      obtain u evs' where g: "get_unified_tags env enriched = (u, evs')"
        by (cases "get_unified_tags env enriched") auto
      show ?thesis
      proof (cases u)
        case (Inl e')
        with l Inr False g assms have "fst (get_unified_tags env enriched) = Inl e"
          by (simp add: process_posts_try_def)
        then show ?thesis using get_unified_tags_error by blast
      next
        case u: (Inr unified)
        show ?thesis
        proof (cases "clean_metadata env unified")
          case (Inl e')
          with l Inr False g u assms have "clean_metadata env unified = Inl e"
            by (simp add: process_posts_try_def)
          then show ?thesis using clean_metadata_error by blast
        next
          case c: (Inr cleaned)
          with l Inr False g u assms
          have "collect (map (rewrite_tags env cleaned) enriched) = Inl e"
            by (auto simp: process_posts_try_def split: sum.splits)
          then have "Inl e \<in> set (map (rewrite_tags env cleaned) enriched)"
            by (rule collect_error)
          then show ?thesis using rewrite_tags_error by auto
        qed
      qed
    qed
  qed
qed

lemma empty_result_only:
  "fst (process_posts env raw (Inr posts) None)
     = Inl (Exn Exception (lit ''Error processing posts: '' @ no_posts))
   \<longleftrightarrow> fst (loop env 0 posts) = Inr []"
proof
  assume a: "fst (process_posts env raw (Inr posts) None)
     = Inl (Exn Exception (lit ''Error processing posts: '' @ no_posts))"
  obtain r evs where t: "process_posts_try env posts None = (r, evs)"
    by (cases "process_posts_try env posts None") auto
  show "fst (loop env 0 posts) = Inr []"
  proof (cases r)
    case (Inl e)
    with t a have "msg e = no_posts"
      by (auto simp: process_posts_def split: if_splits)
    moreover from t Inl have "fst (process_posts_try env posts None) = Inl e" by simp
    ultimately show ?thesis using process_posts_try_error by blast
  next
    case (Inr out)
    with t a show ?thesis by (simp add: process_posts_def)
  qed
next
  assume "fst (loop env 0 posts) = Inr []"
  then obtain evs where "loop env 0 posts = (Inr [], evs)"
    by (cases "loop env 0 posts") auto
  from process_posts_wraps[OF process_posts_try_empty[OF this, of None], where raw = raw]
  show "fst (process_posts env raw (Inr posts) None)
     = Inl (Exn Exception (lit ''Error processing posts: '' @ no_posts))"
    by simp
qed

section \<open>Facts about applying a tag map\<close>

lemma new_tag_fixed:
  assumes "\<forall>v\<in>snd ` set m. hashable v \<longrightarrow> tag_get m v = Inr v"
    "new_tag m t = Inr v"
  shows "new_tag m v = Inr v"
proof -
  from assms(2) have g: "tag_get m t = Inr v" and h: "hashable v"
    by (auto simp: new_tag_def split: sum.splits if_splits)
  have "tag_get m v = Inr v"
  proof (cases "v = t")
    case True
    with g show ?thesis by simp
  next
    case False
    with g obtain s where "t = JStr s" "map_of m s = Some v"
      by (cases t) (auto simp: tag_get_def split: if_splits option.splits)
    then have "v \<in> snd ` set m" by (metis map_of_SomeD snd_conv image_eqI)
    with assms(1) h show ?thesis by blast
  qed
  with h show ?thesis by (simp add: new_tag_def)
qed

lemma get_unified_tags_returns:
  assumes "collect (map (cleaned_tags env) posts) = Inr tagss"
    "clean_text (nfkc env) (join (lit '','') (strs (set_iter env (map JStr (concat tagss)))))
       = Inr tags"
    "invoke_unify env tags = Inr content"
    "extract_json_from_response content = Inr json_str"
    "json_parse env json_str = Inr (JObj d)"
  shows "get_unified_tags env posts = (Inr d, [])"
  using assms by (simp add: get_unified_tags_def get_unified_tags_try_def Let_def)

lemma tag_get_default: "map_of m s = None \<Longrightarrow> tag_get m (JStr s) = Inr (JStr s)"
  by (simp add: tag_get_def hashable_def)

lemma rewrite_again:
  assumes fixed: "\<forall>v\<in>snd ` set m. hashable v \<longrightarrow> tag_get m v = Inr v"
    and only: "\<forall>xs. set (set_iter env xs) \<subseteq> set xs"
    and again: "\<forall>xs. set (set_iter env (set_iter env xs)) = set (set_iter env xs)"
    and rewritten: "rewrite_tags env m post = Inr post'"
  shows "\<exists>ts. get_tags post' = JArr ts \<and> (\<forall>t\<in>set ts. new_tag m t = Inr t)
           \<and> (\<exists>post'' ts'. rewrite_tags env m post' = Inr post''
                 \<and> get_tags post'' = JArr ts' \<and> ts' = set_iter env ts \<and> set ts' = set ts)"
proof -
  from rewritten obtain cur vs where
    cur: "iterate (get_tags post) = Inr cur"
    and vs: "collect (map (new_tag m) cur) = Inr vs"
    and p': "post' = dict_set (lit ''tags'') (JArr (set_iter env vs)) post"
    by (auto simp: rewrite_tags_def split: sum.splits)
  let ?ts = "set_iter env vs"
  have t: "get_tags post' = JArr ?ts"
    unfolding p' by (rule get_tags_set)
  have "list_all2 (\<lambda>x y. new_tag m x = Inr y) cur vs"
    using vs by (rule collect_all2)
  then have "\<forall>v\<in>set vs. \<exists>x. new_tag m x = Inr v"
    by (induction rule: list_all2_induct) auto
  then have "\<forall>v\<in>set vs. new_tag m v = Inr v"
    using new_tag_fixed[OF fixed] by blast
  then have f: "\<forall>t\<in>set ?ts. new_tag m t = Inr t"
    using only by blast
  then have c: "collect (map (new_tag m) ?ts) = Inr ?ts"
    by (rule collect_fixed)
  have r: "rewrite_tags env m post' = Inr (dict_set (lit ''tags'') (JArr (set_iter env ?ts)) post')"
    by (simp add: rewrite_tags_def t iterate_def c)
  have "get_tags (dict_set (lit ''tags'') (JArr (set_iter env ?ts)) post') = JArr (set_iter env ?ts)"
    by (rule get_tags_set)
  moreover have "set (set_iter env ?ts) = set ?ts"
    using again by simp
  ultimately show ?thesis
    using t f r by blast
qed

lemma tagged_motivation:
  "tagged_post [lit ''Motivation''] = (lit ''text'', JStr (lit ''Post zero'')) # sample_metadata"
  by (simp add: tagged_post_def sample_metadata_def)

lemma tagged_tags: "get_tags (tagged_post ts) = JArr (map JStr ts)"
  by (simp add: get_tags_def tagged_post_def lit_def)

lemma tagged_set: "dict_set (lit ''tags'') (JArr (map JStr us)) (tagged_post ts) = tagged_post us"
  by (simp add: tagged_post_def lit_def)

lemma rewrite_tagged:
  assumes "collect (map (new_tag m) (map JStr ts)) = Inr vs" "remdups vs = map JStr us"
  shows "rewrite_tags (sample_env a b) m (tagged_post ts) = Inr (tagged_post us)"
  using assms
  by (simp add: rewrite_tags_def tagged_tags iterate_def sample_env_sel tagged_set
        del: dict_set.simps)

lemma chain_new_tags:
  "new_tag chain_tag_map (JStr (lit ''Motivation'')) = Inr (JStr (lit ''Growth''))"
  "new_tag chain_tag_map (JStr (lit ''Growth'')) = Inr (JStr (lit ''Mindset''))"
  by (simp_all add: new_tag_def tag_get_def hashable_def chain_tag_map_def lit_def)

lemma chain_rewrites:
  "rewrite_tags (sample_env a b) chain_tag_map (tagged_post [lit ''Motivation''])
     = Inr (tagged_post [lit ''Growth''])"
  "rewrite_tags (sample_env a b) chain_tag_map (tagged_post [lit ''Growth''])
     = Inr (tagged_post [lit ''Mindset''])"
  by (rule rewrite_tagged[where vs = "[JStr (lit ''Growth'')]"], simp add: chain_new_tags, simp)
     (rule rewrite_tagged[where vs = "[JStr (lit ''Mindset'')]"], simp add: chain_new_tags, simp)

lemma merge_new_tags:
  "new_tag merge_tag_map (JStr (lit ''Motivation'')) = Inr (JStr (lit ''Growth''))"
  "new_tag merge_tag_map (JStr (lit ''Inspiration'')) = Inr (JStr (lit ''Growth''))"
  "new_tag merge_tag_map (JStr (lit ''Career'')) = Inr (JStr (lit ''Career''))"
  by (simp_all add: new_tag_def tag_get_def hashable_def merge_tag_map_def lit_def)

lemma merge_rewrite:
  "rewrite_tags (sample_env a b) merge_tag_map
     (tagged_post [lit ''Motivation'', lit ''Inspiration'', lit ''Career''])
     = Inr (tagged_post [lit ''Growth'', lit ''Career''])"
  by (rule rewrite_tagged[where vs = "[JStr (lit ''Growth''), JStr (lit ''Growth''),
        JStr (lit ''Career'')]"], simp add: merge_new_tags, simp add: lit_def)

lemma clean_text_more:
  "clean_text nf (lit ''Inspiration'') = Inr (lit ''Inspiration'')"
  "clean_text nf (lit ''Motivation,Inspiration,Career'') = Inr (lit ''Motivation,Inspiration,Career'')"
  by (rule clean_text_fixed; simp add: lit_def kept_def is_surrogate_def py_isspace_def)+

lemma merge_cleaned_tags:
  "cleaned_tags (sample_env a b) (tagged_post [lit ''Motivation'', lit ''Inspiration'', lit ''Career''])
     = Inr [lit ''Motivation'', lit ''Inspiration'', lit ''Career'']"
  by (simp add: cleaned_tags_def tagged_tags iterate_def clean_text_any_def sample_env_sel
        clean_text_words clean_text_more)

lemma merge_joined:
  "join (lit '','') (strs (remdups (map JStr [lit ''Motivation'', lit ''Inspiration'', lit ''Career''])))
     = lit ''Motivation,Inspiration,Career''"
  by (simp add: strs_def lit_def)

lemma extract_merge: "extract_json_from_response merge_json = Inr merge_json"
  by (simp add: merge_json_def extract_json_from_response_def lit_def match_here_def)

lemma sample_parse_merge: "sample_parse merge_json = Inr (JObj merge_tag_map)"
  by (simp add: sample_parse_def merge_json_def chain_json_def identity_json_def sample_json_def
        french_json_def author_json_def lit_def)

lemma merge_fixed: "\<forall>v\<in>snd ` set merge_tag_map. hashable v \<longrightarrow> tag_get merge_tag_map v = Inr v"
  by (simp add: merge_tag_map_def tag_get_def hashable_def lit_def)

section \<open>The claims\<close>

text \<open>
  C6. \<open>clean\<close> is idempotent: for every input string \<open>x\<close>, cleaning succeeds with some
  \<open>y\<close>, and cleaning \<open>y\<close> again gives \<open>y\<close>.
\<close>

theorem clean_text_idempotent:
  assumes "valid_str x"
  shows "\<exists>y. clean_text nf x = Inr y \<and> clean_text nf y = Inr y"
  using clean_text_output[OF assms] clean_text_fixed by blast

theorem clean_text_idempotent_witness:
  "valid_str [0x20, 0x48, 0xD800, 0x0A, 0x1F600, 0xD80, 0xA0] \<and>
   (\<exists>y. clean_text (\<lambda>t. t) [0x20, 0x48, 0xD800, 0x0A, 0x1F600, 0xD80, 0xA0] = Inr y \<and>
        clean_text (\<lambda>t. t) y = Inr y)"
proof -
  have v: "valid_str [0x20, 0x48, 0xD800, 0x0A, 0x1F600, 0xD80, 0xA0]"
    by (simp add: valid_str_def)
  from clean_text_idempotent[OF v, of "\<lambda>t. t"] v show ?thesis by simp
qed



text \<open>
  C10. \<open>clean\<close> is total and its fallback branch is unreachable: for every input string,
  encoding with errors ignored raises nothing and the strict decoder accepts the bytes
  (giving the input without its surrogates), so \<open>clean\<close> returns the result of the
  primary path, whatever the normalization of the fallback branch would compute.
\<close>

theorem clean_text_never_falls_back:
  assumes "valid_str x"
  shows "(\<exists>bs. utf8_encode Ignore x = Inr bs
               \<and> utf8_decode bs = Inr (filter (\<lambda>c. \<not> is_surrogate c) x))
         \<and> clean_text nf x = Inr (strip (re_sub (filter (\<lambda>c. \<not> is_surrogate c) x)))
         \<and> clean_text nf x = clean_text nf' x"
proof -
  obtain bs where e: "utf8_encode Ignore x = Inr bs"
    using encode_ignore_total by blast
  have "utf8_decode bs = Inr (filter (\<lambda>c. \<not> is_surrogate c) x)"
    using assms e by (rule decode_encode_ignore)
  with e have "\<exists>bs. utf8_encode Ignore x = Inr bs
               \<and> utf8_decode bs = Inr (filter (\<lambda>c. \<not> is_surrogate c) x)" by blast
  then show ?thesis
    by (simp add: clean_text_primary[OF assms])
qed

theorem clean_text_never_falls_back_witness:
  "valid_str [0xD800, 0x61, 0xDFFF, 0x10FFFF, 0x7FF, 0x800] \<and>
   utf8_encode Ignore [0xD800, 0x61, 0xDFFF, 0x10FFFF, 0x7FF, 0x800]
     = Inr [0x61, 0xF4, 0x8F, 0xBF, 0xBF, 0xDF, 0xBF, 0xE0, 0xA0, 0x80] \<and>
   utf8_decode [0x61, 0xF4, 0x8F, 0xBF, 0xBF, 0xDF, 0xBF, 0xE0, 0xA0, 0x80]
     = Inr [0x61, 0x10FFFF, 0x7FF, 0x800] \<and>
   clean_text (\<lambda>t. []) [0xD800, 0x61, 0xDFFF, 0x10FFFF, 0x7FF, 0x800] = Inr [0x61, 0x20, 0x7FF, 0x800]"
proof -
  have v: "valid_str [0xD800, 0x61, 0xDFFF, 0x10FFFF, 0x7FF, 0x800]"
    by (simp add: valid_str_def)
  have e: "utf8_encode Ignore [0xD800, 0x61, 0xDFFF, 0x10FFFF, 0x7FF, 0x800]
     = Inr [0x61, 0xF4, 0x8F, 0xBF, 0xBF, 0xDF, 0xBF, 0xE0, 0xA0, 0x80]"
    by (simp add: is_surrogate_def utf8_char_def)
  have f: "filter (\<lambda>c. \<not> is_surrogate c) [0xD800, 0x61, 0xDFFF, 0x10FFFF, 0x7FF, 0x800]
             = [0x61, 0x10FFFF, 0x7FF, 0x800]"
    by (simp add: is_surrogate_def)
  have s: "strip (re_sub [0x61, 0x10FFFF, 0x7FF, 0x800]) = [0x61, 0x20, 0x7FF, 0x800]"
    by (simp add: strip_def re_sub_def kept_def py_isspace_def)
  from clean_text_never_falls_back[OF v, of "\<lambda>t. []" "\<lambda>t. []"] v e f s show ?thesis
    by simp
qed

text \<open>
  C4. For every response, extraction takes the first brace-delimited substring, matched
  lazily and across newlines, and parses that substring: the result is the text from the
  first opening brace to the first closing brace after it. The response of the example,
  with prose around the object, gives the object's text and, once parsed to the mapping
  of the example, that mapping. A response with no opening brace followed by a closing
  brace fails: \<open>ValueError\<close> in \<open>extract_json_from_response\<close>, raised again by
  \<open>extract_metadata\<close> as an \<open>Exception\<close> with the same text.
\<close>

theorem brace_extraction:
  "(extract_json_from_response r = Inr m \<longleftrightarrow>
      (\<exists>pre body rest. r = pre @ 0x7B # body @ 0x7D # rest \<and> 0x7B \<notin> set pre
          \<and> 0x7D \<notin> set body \<and> m = 0x7B # body @ [0x7D]))
   \<and> (invoke_extract env i post = Inr r \<and> extract_json_from_response r = Inr m \<longrightarrow>
        extract_metadata_try env i post =
          (case json_parse env m of Inl e \<Rightarrow> Inl e | Inr res \<Rightarrow> validate_metadata env res))
   \<and> extract_json_from_response sample_response = Inr sample_json
   \<and> (invoke_extract env i post = Inr sample_response
        \<and> json_parse env sample_json = Inr (JObj sample_metadata) \<longrightarrow>
        extract_metadata env i post = (Inr sample_metadata, []))
   \<and> (\<not> (\<exists>pre mid. r = pre @ 0x7B # mid \<and> 0x7D \<in> set mid) \<longrightarrow>
        extract_json_from_response r
          = Inl (Exn ValueError (lit ''No valid JSON object found in response''))
        \<and> (invoke_extract env i post = Inr r \<longrightarrow>
             extract_metadata env i post =
               (Inl (Exn Exception (lit ''Error extracting metadata: ''
                                    @ lit ''No valid JSON object found in response'')),
                [Log ERROR (lit ''Error extracting metadata: ''
                            @ lit ''No valid JSON object found in response'')])))"
proof (intro conjI impI)
  show "extract_json_from_response r = Inr m \<longleftrightarrow>
      (\<exists>pre body rest. r = pre @ 0x7B # body @ 0x7D # rest \<and> 0x7B \<notin> set pre
          \<and> 0x7D \<notin> set body \<and> m = 0x7B # body @ [0x7D])"
    by (rule extract_json_iff)
  show "extract_json_from_response sample_response = Inr sample_json"
    by (rule extract_sample)
next
  assume "invoke_extract env i post = Inr r \<and> extract_json_from_response r = Inr m"
  then show "extract_metadata_try env i post =
          (case json_parse env m of Inl e \<Rightarrow> Inl e | Inr res \<Rightarrow> validate_metadata env res)"
    by (simp add: extract_metadata_try_parsed)
next
  assume "invoke_extract env i post = Inr sample_response
        \<and> json_parse env sample_json = Inr (JObj sample_metadata)"
  then show "extract_metadata env i post = (Inr sample_metadata, [])"
    by (simp add: extract_metadata_def extract_metadata_try_def extract_sample validate_sample)
next
  assume n: "\<not> (\<exists>pre mid. r = pre @ 0x7B # mid \<and> 0x7D \<in> set mid)"
  then show e: "extract_json_from_response r
          = Inl (Exn ValueError (lit ''No valid JSON object found in response''))"
    by (rule extract_json_none)
  assume "invoke_extract env i post = Inr r"
  then show "extract_metadata env i post =
               (Inl (Exn Exception (lit ''Error extracting metadata: ''
                                    @ lit ''No valid JSON object found in response'')),
                [Log ERROR (lit ''Error extracting metadata: ''
                            @ lit ''No valid JSON object found in response'')])"
    using extract_json_none[OF n] by (rule extract_metadata_no_object)
qed

theorem brace_extraction_witness:
  "invoke_extract (sample_env (\<lambda>i t. Inr sample_response) (\<lambda>t. Inr identity_json)) 7 (lit ''a post'')
     = Inr sample_response
   \<and> extract_json_from_response sample_response = Inr sample_json
   \<and> json_parse (sample_env (\<lambda>i t. Inr sample_response) (\<lambda>t. Inr identity_json)) sample_json
     = Inr (JObj sample_metadata)
   \<and> extract_metadata (sample_env (\<lambda>i t. Inr sample_response) (\<lambda>t. Inr identity_json)) 7
        (lit ''a post'') = (Inr sample_metadata, [])
   \<and> \<not> (\<exists>pre mid. lit ''oops }{'' = pre @ 0x7B # mid \<and> 0x7D \<in> set mid)
   \<and> extract_json_from_response (lit ''oops }{'')
       = Inl (Exn ValueError (lit ''No valid JSON object found in response''))
   \<and> invoke_extract (sample_env (\<lambda>i t. Inr (lit ''oops }{'')) (\<lambda>t. Inr identity_json)) 7 (lit ''a post'')
       = Inr (lit ''oops }{'')
   \<and> extract_metadata (sample_env (\<lambda>i t. Inr (lit ''oops }{'')) (\<lambda>t. Inr identity_json)) 7
        (lit ''a post'')
       = (Inl (Exn Exception (lit ''Error extracting metadata: No valid JSON object found in response'')),
          [Log ERROR (lit ''Error extracting metadata: No valid JSON object found in response'')])"
proof -
  let ?e1 = "sample_env (\<lambda>i t. Inr sample_response) (\<lambda>t. Inr identity_json)"
  let ?e2 = "sample_env (\<lambda>i t. Inr (lit ''oops }{'')) (\<lambda>t. Inr identity_json)"
  have a: "invoke_extract ?e1 7 (lit ''a post'') = Inr sample_response"
    by (simp add: sample_env_def)
  have b: "json_parse ?e1 sample_json = Inr (JObj sample_metadata)"
    by (simp add: sample_env_def sample_parse_def)
  have c: "\<not> (\<exists>pre mid. lit ''oops }{'' = pre @ 0x7B # mid \<and> 0x7D \<in> set mid)"
    using re_search_none[of "lit ''oops }{''"] by (simp add: lit_def match_here_def)
  have d: "invoke_extract ?e2 7 (lit ''a post'') = Inr (lit ''oops }{'')"
    by (simp add: sample_env_def)
  have l: "lit ''Error extracting metadata: '' @ lit ''No valid JSON object found in response''
            = lit ''Error extracting metadata: No valid JSON object found in response''"
    by (simp add: lit_def)
  from brace_extraction[of sample_response sample_json ?e1 7 "lit ''a post''"] a b
  have 1: "extract_json_from_response sample_response = Inr sample_json"
    and 2: "extract_metadata ?e1 7 (lit ''a post'') = (Inr sample_metadata, [])"
    by blast+
  from brace_extraction[of "lit ''oops }{''" "[]" ?e2 7 "lit ''a post''"] c d
  have 3: "extract_json_from_response (lit ''oops }{'')
       = Inl (Exn ValueError (lit ''No valid JSON object found in response''))"
    and 4: "extract_metadata ?e2 7 (lit ''a post'')
       = (Inl (Exn Exception (lit ''Error extracting metadata: ''
                                    @ lit ''No valid JSON object found in response'')),
                [Log ERROR (lit ''Error extracting metadata: ''
                            @ lit ''No valid JSON object found in response'')])"
    by blast+
  show ?thesis using a b c d 1 2 3 4 unfolding l by blast
qed

text \<open>
  C5. For every parsed extraction result, \<open>extract\<close> returns the parsed mapping itself
  when the result is a mapping that has the keys \<open>line_count\<close>, \<open>language\<close> and \<open>tags\<close>
  and whose \<open>language\<close> is exactly "English" or "Sinhala", and fails with the validation
  error otherwise: \<open>ValueError\<close> at lines 142 and 144, raised again by the handler of
  line 149 as an \<open>Exception\<close> that carries its text.
\<close>

theorem metadata_validation:
  assumes "invoke_extract env i post = Inr content"
    and "extract_json_from_response content = Inr json_str"
    and "json_parse env json_str = Inr res"
  shows "(\<forall>d. res = JObj d \<and> map_of d (lit ''line_count'') \<noteq> None
            \<and> map_of d (lit ''language'') \<noteq> None \<and> map_of d (lit ''tags'') \<noteq> None
            \<and> (map_of d (lit ''language'') = Some (JStr (lit ''English''))
                 \<or> map_of d (lit ''language'') = Some (JStr (lit ''Sinhala'')))
            \<longrightarrow> extract_metadata env i post = (Inr d, []))
       \<and> (\<not> (\<exists>d. res = JObj d \<and> map_of d (lit ''line_count'') \<noteq> None
            \<and> map_of d (lit ''language'') \<noteq> None \<and> map_of d (lit ''tags'') \<noteq> None
            \<and> (map_of d (lit ''language'') = Some (JStr (lit ''English''))
                 \<or> map_of d (lit ''language'') = Some (JStr (lit ''Sinhala''))))
            \<longrightarrow> (\<exists>m. validate_metadata env res = Inl (Exn ValueError m)
                   \<and> extract_metadata env i post =
                       (Inl (Exn Exception (lit ''Error extracting metadata: '' @ m)),
                        [Log ERROR (lit ''Error extracting metadata: '' @ m)])))"
proof (intro conjI allI impI)
  fix d
  assume "res = JObj d \<and> map_of d (lit ''line_count'') \<noteq> None
            \<and> map_of d (lit ''language'') \<noteq> None \<and> map_of d (lit ''tags'') \<noteq> None
            \<and> (map_of d (lit ''language'') = Some (JStr (lit ''English''))
                 \<or> map_of d (lit ''language'') = Some (JStr (lit ''Sinhala'')))"
  then have "validate_metadata env res = Inr d"
    unfolding validate_iff by blast
  then show "extract_metadata env i post = (Inr d, [])"
    by (simp add: extract_metadata_validated[OF assms])
next
  assume n: "\<not> (\<exists>d. res = JObj d \<and> map_of d (lit ''line_count'') \<noteq> None
            \<and> map_of d (lit ''language'') \<noteq> None \<and> map_of d (lit ''tags'') \<noteq> None
            \<and> (map_of d (lit ''language'') = Some (JStr (lit ''English''))
                 \<or> map_of d (lit ''language'') = Some (JStr (lit ''Sinhala''))))"
  have "\<And>d. validate_metadata env res \<noteq> Inr d"
    using n unfolding validate_iff by blast
  then obtain e where e: "validate_metadata env res = Inl e"
    by (cases "validate_metadata env res") auto
  then have "cls e = ValueError" by (rule validate_error)
  then have "e = Exn ValueError (msg e)" by (cases e) simp
  with e have v: "validate_metadata env res = Inl (Exn ValueError (msg e))" by simp
  have "extract_metadata env i post =
          (Inl (Exn Exception (lit ''Error extracting metadata: '' @ msg e)),
           [Log ERROR (lit ''Error extracting metadata: '' @ msg e)])"
    by (simp add: extract_metadata_validated[OF assms] e)
  with v show "\<exists>m. validate_metadata env res = Inl (Exn ValueError m)
                   \<and> extract_metadata env i post =
                       (Inl (Exn Exception (lit ''Error extracting metadata: '' @ m)),
                        [Log ERROR (lit ''Error extracting metadata: '' @ m)])"
    by blast
qed

theorem metadata_validation_witness:
  "invoke_extract (sample_env (\<lambda>i t. Inr french_json) (\<lambda>t. Inr identity_json)) 0 (lit ''Bonjour'')
     = Inr french_json
   \<and> extract_json_from_response french_json = Inr french_json
   \<and> json_parse (sample_env (\<lambda>i t. Inr french_json) (\<lambda>t. Inr identity_json)) french_json
       = Inr (JObj french_metadata)
   \<and> extract_metadata (sample_env (\<lambda>i t. Inr french_json) (\<lambda>t. Inr identity_json)) 0
        (lit ''Bonjour'')
       = (Inl (Exn Exception (lit ''Error extracting metadata: Invalid language '' @ quoted (lit ''French'')
                              @ lit '' returned by LLM.'')),
          [Log ERROR (lit ''Error extracting metadata: Invalid language '' @ quoted (lit ''French'')
                              @ lit '' returned by LLM.'')])
   \<and> invoke_extract (sample_env (\<lambda>i t. Inr sample_response) (\<lambda>t. Inr identity_json)) 0 (lit ''Hello'')
     = Inr sample_response
   \<and> extract_json_from_response sample_response = Inr sample_json
   \<and> json_parse (sample_env (\<lambda>i t. Inr sample_response) (\<lambda>t. Inr identity_json)) sample_json
       = Inr (JObj sample_metadata)
   \<and> extract_metadata (sample_env (\<lambda>i t. Inr sample_response) (\<lambda>t. Inr identity_json)) 0
        (lit ''Hello'') = (Inr sample_metadata, [])"
proof -
  let ?f = "sample_env (\<lambda>i t. Inr french_json) (\<lambda>t. Inr identity_json)"
  let ?g = "sample_env (\<lambda>i t. Inr sample_response) (\<lambda>t. Inr identity_json)"
  have a: "invoke_extract ?f 0 (lit ''Bonjour'') = Inr french_json"
    by (simp add: sample_env_def)
  have b: "extract_json_from_response french_json = Inr french_json"
    by (simp add: french_json_def extract_json_from_response_def lit_def match_here_def)
  have c: "json_parse ?f french_json = Inr (JObj french_metadata)"
    by (simp add: sample_env_def sample_parse_def french_json_def sample_json_def lit_def)
  have n: "\<not> (\<exists>d. JObj french_metadata = JObj d \<and> map_of d (lit ''line_count'') \<noteq> None
            \<and> map_of d (lit ''language'') \<noteq> None \<and> map_of d (lit ''tags'') \<noteq> None
            \<and> (map_of d (lit ''language'') = Some (JStr (lit ''English''))
                 \<or> map_of d (lit ''language'') = Some (JStr (lit ''Sinhala''))))"
    by (simp add: french_metadata_def lit_def)
  have v: "validate_metadata ?f (JObj french_metadata)
             = Inl (Exn ValueError (lit ''Invalid language '' @ quoted (lit ''French'')
                              @ lit '' returned by LLM.''))"
    by (simp add: validate_metadata_def french_metadata_def lit_def format_def)
  from metadata_validation[OF a b c] n obtain m where
    m: "validate_metadata ?f (JObj french_metadata) = Inl (Exn ValueError m)"
       "extract_metadata ?f 0 (lit ''Bonjour'') =
                       (Inl (Exn Exception (lit ''Error extracting metadata: '' @ m)),
                        [Log ERROR (lit ''Error extracting metadata: '' @ m)])"
    by blast
  from m(1) v have "m = lit ''Invalid language '' @ quoted (lit ''French'') @ lit '' returned by LLM.''"
    by simp
  with m(2) have 1: "extract_metadata ?f 0 (lit ''Bonjour'')
       = (Inl (Exn Exception (lit ''Error extracting metadata: Invalid language '' @ quoted (lit ''French'')
                              @ lit '' returned by LLM.'')),
          [Log ERROR (lit ''Error extracting metadata: Invalid language '' @ quoted (lit ''French'')
                              @ lit '' returned by LLM.'')])"
    by (simp add: lit_def)
  have a': "invoke_extract ?g 0 (lit ''Hello'') = Inr sample_response"
    by (simp add: sample_env_def)
  have b': "extract_json_from_response sample_response = Inr sample_json"
    by (rule extract_sample)
  have c': "json_parse ?g sample_json = Inr (JObj sample_metadata)"
    by (simp add: sample_env_def sample_parse_def)
  have p: "JObj sample_metadata = JObj sample_metadata
            \<and> map_of sample_metadata (lit ''line_count'') \<noteq> None
            \<and> map_of sample_metadata (lit ''language'') \<noteq> None
            \<and> map_of sample_metadata (lit ''tags'') \<noteq> None
            \<and> (map_of sample_metadata (lit ''language'') = Some (JStr (lit ''English''))
                 \<or> map_of sample_metadata (lit ''language'') = Some (JStr (lit ''Sinhala'')))"
    by (simp add: sample_metadata_def lit_def)
  from metadata_validation[OF a' b' c'] p
  have 2: "extract_metadata ?g 0 (lit ''Hello'') = (Inr sample_metadata, [])"
    by blast
  show ?thesis using a b c 1 a' b' c' 2 by blast
qed



text \<open>
  C3. If the loop ends with no enriched post, \<open>process_posts\<close> fails with the
  empty-result error: line 89 raises \<open>ValueError\<close> with the text "No posts were
  successfully processed.", and the handler of line 111 raises it again as an
  \<open>Exception\<close> whose text is that one after "Error processing posts: ". Both are
  logged. In particular this is the outcome for the empty list of posts. It is the
  outcome of no other run: when no output file is written, \<open>process_posts\<close> fails with
  this exception exactly when the loop ends with no enriched post.
\<close>

theorem empty_result_error:
  "(loop env 0 posts = (Inr [], evs) \<longrightarrow>
      process_posts_try env posts path
        = (Inl (Exn ValueError no_posts), evs @ [Log ERROR no_posts])
      \<and> process_posts env raw (Inr posts) path
        = (Inl (Exn Exception (lit ''Error processing posts: '' @ no_posts)),
           evs @ [Log ERROR no_posts, Log ERROR (lit ''Error processing posts: '' @ no_posts)]))
   \<and> process_posts env raw (Inr []) path
        = (Inl (Exn Exception (lit ''Error processing posts: '' @ no_posts)),
           [Log ERROR no_posts, Log ERROR (lit ''Error processing posts: '' @ no_posts)])
   \<and> (fst (process_posts env raw (Inr posts) None)
          = Inl (Exn Exception (lit ''Error processing posts: '' @ no_posts))
        \<longleftrightarrow> fst (loop env 0 posts) = Inr [])"
proof -
  have g: "process_posts env raw (Inr ps) path
        = (Inl (Exn Exception (lit ''Error processing posts: '' @ no_posts)),
           es @ [Log ERROR no_posts, Log ERROR (lit ''Error processing posts: '' @ no_posts)])"
    if "loop env 0 ps = (Inr [], es)" for ps es
    using process_posts_wraps[OF process_posts_try_empty[OF that, of path], where raw = raw] by simp
  have "loop env 0 [] = (Inr [], [])" by simp
  from g[OF this] have
    "(loop env 0 posts = (Inr [], evs) \<longrightarrow>
      process_posts_try env posts path
        = (Inl (Exn ValueError no_posts), evs @ [Log ERROR no_posts])
      \<and> process_posts env raw (Inr posts) path
        = (Inl (Exn Exception (lit ''Error processing posts: '' @ no_posts)),
           evs @ [Log ERROR no_posts, Log ERROR (lit ''Error processing posts: '' @ no_posts)]))
     \<and> process_posts env raw (Inr []) path
        = (Inl (Exn Exception (lit ''Error processing posts: '' @ no_posts)),
           [Log ERROR no_posts, Log ERROR (lit ''Error processing posts: '' @ no_posts)])"
    using g process_posts_try_empty by auto
  then show ?thesis
    using empty_result_only[of env raw posts] by blast
qed

theorem empty_result_error_witness:
  "loop (sample_env fails_at_three (\<lambda>t. Inr identity_json)) 0 [] = (Inr [], [])
   \<and> process_posts (sample_env fails_at_three (\<lambda>t. Inr identity_json)) (lit ''raw.json'') (Inr []) None
       = (Inl (Exn Exception (lit ''Error processing posts: No posts were successfully processed.'')),
          [Log ERROR (lit ''No posts were successfully processed.''),
           Log ERROR (lit ''Error processing posts: No posts were successfully processed.'')])
   \<and> loop (sample_env (\<lambda>i t. Inr french_json) (\<lambda>t. Inr identity_json)) 0
        [[(lit ''text'', JStr (lit ''Post zero''))]]
       = (Inr [],
          [Log INFO (lit ''Processing post 0: Post zero...''),
           Log ERROR (lit ''Error extracting metadata: Invalid language '' @ quoted (lit ''French'')
                      @ lit '' returned by LLM.''),
           Log ERROR (lit ''Error processing post 0: Post zero... | Error: Error extracting metadata: Invalid language ''
                      @ quoted (lit ''French'') @ lit '' returned by LLM.''),
           Print (lit ''Error processing post 0: Post zero... | Error: Error extracting metadata: Invalid language ''
                      @ quoted (lit ''French'') @ lit '' returned by LLM.'')])
   \<and> fst (process_posts (sample_env (\<lambda>i t. Inr french_json) (\<lambda>t. Inr identity_json)) (lit ''raw.json'')
        (Inr [[(lit ''text'', JStr (lit ''Post zero''))]]) None)
       = Inl (Exn Exception (lit ''Error processing posts: No posts were successfully processed.''))"
proof -
  let ?E = "sample_env fails_at_three (\<lambda>t. Inr identity_json)"
  let ?F = "sample_env (\<lambda>i t. Inr french_json) (\<lambda>t. Inr identity_json)"
  let ?p = "[(lit ''text'', JStr (lit ''Post zero''))]"
  let ?m = "lit ''Invalid language '' @ quoted (lit ''French'') @ lit '' returned by LLM.''"
  have n: "lit ''Error processing posts: '' @ no_posts
             = lit ''Error processing posts: No posts were successfully processed.''"
    by (simp add: no_posts_def lit_def)
  have n': "no_posts = lit ''No posts were successfully processed.''"
    by (simp add: no_posts_def)
  have x: "extract_metadata ?F 0 (lit ''Post zero'') =
      (Inl (Exn Exception (lit ''Error extracting metadata: '' @ ?m)),
       [Log ERROR (lit ''Error extracting metadata: '' @ ?m)])"
  proof -
    have b: "extract_json_from_response french_json = Inr french_json"
      by (simp add: french_json_def extract_json_from_response_def lit_def match_here_def)
    have c: "sample_parse french_json = Inr (JObj french_metadata)"
      by (simp add: sample_parse_def french_json_def sample_json_def lit_def)
    have v: "validate_metadata ?F (JObj french_metadata) = Inl (Exn ValueError ?m)"
      by (simp add: validate_metadata_def french_metadata_def lit_def format_def)
    show ?thesis
      by (subst extract_metadata_validated[where content = french_json
            and json_str = french_json and res = "JObj french_metadata"])
         (simp_all add: sample_env_sel b c v)
  qed
  have e: "enrich_post ?F 0 ?p =
      (Inl (Exn Exception (lit ''Error extracting metadata: '' @ ?m)),
       [Log ERROR (lit ''Error extracting metadata: '' @ ?m)])"
    by (subst enrich_post_extract_fails[where t = "lit ''Post zero''" and c = "lit ''Post zero''"
          and e = "Exn Exception (lit ''Error extracting metadata: '' @ ?m)"
          and evs = "[Log ERROR (lit ''Error extracting metadata: '' @ ?m)]"])
       (simp_all add: sample_env_sel clean_text_words x)
  have i: "iteration ?F 0 ?p = (Inr None,
     Log INFO (lit ''Processing post '' @ str_nat 0 @ lit '': '' @ take 100 (lit ''Post zero'') @ lit ''...'')
       # [Log ERROR (lit ''Error extracting metadata: '' @ ?m)]
       @ [Log ERROR (error_msg 0 (take 100 (lit ''Post zero'')) (Exn Exception (lit ''Error extracting metadata: '' @ ?m))),
          Print (error_msg 0 (take 100 (lit ''Post zero'')) (Exn Exception (lit ''Error extracting metadata: '' @ ?m)))])"
    by (rule iteration_failure[OF excerpt_str e]) simp
  have l: "loop ?F 0 [?p]
       = (Inr [],
          [Log INFO (lit ''Processing post 0: Post zero...''),
           Log ERROR (lit ''Error extracting metadata: Invalid language '' @ quoted (lit ''French'')
                      @ lit '' returned by LLM.''),
           Log ERROR (lit ''Error processing post 0: Post zero... | Error: Error extracting metadata: Invalid language ''
                      @ quoted (lit ''French'') @ lit '' returned by LLM.''),
           Print (lit ''Error processing post 0: Post zero... | Error: Error extracting metadata: Invalid language ''
                      @ quoted (lit ''French'') @ lit '' returned by LLM.'')])"
    unfolding loop_skip[OF i]
    by (simp add: error_msg_def) (simp add: lit_def str_nat.simps quoted_def)
  have l0: "loop ?E 0 [] = (Inr [], [])" by simp
  from empty_result_error[of ?E "[]" "[]" None "lit ''raw.json''"] l0
  have 1: "process_posts ?E (lit ''raw.json'') (Inr []) None
       = (Inl (Exn Exception (lit ''Error processing posts: No posts were successfully processed.'')),
          [Log ERROR (lit ''No posts were successfully processed.''),
           Log ERROR (lit ''Error processing posts: No posts were successfully processed.'')])"
    unfolding n unfolding n' by simp
  from empty_result_error[of ?F "[?p]" _ None "lit ''raw.json''"] l
  have 2: "fst (process_posts ?F (lit ''raw.json'') (Inr [?p]) None)
       = Inl (Exn Exception (lit ''Error processing posts: No posts were successfully processed.''))"
    unfolding n unfolding n' by simp
  show ?thesis using l0 1 l 2 by blast
qed

text \<open>
  C1. The claim: a post without a \<open>text\<close> field is skipped with a log entry and the loop
  goes on. The code: line 65 subscripts \<open>post['text']\<close> before the check of line 66, the
  handler of line 81 subscripts it again, and the \<open>KeyError\<close> raised inside the handler
  leaves the loop. Whatever posts follow, the run ends with the \<open>Exception\<close> of line
  113 for that \<open>KeyError\<close>, and the only log record is the one of line 112.
\<close>

theorem missing_text_aborts_batch:
  "process_posts env raw (Inr ([(lit ''id'', JInt 1)] # rest)) path
     = (Inl (Exn Exception (lit ''Error processing posts: '' @ quoted (lit ''text''))),
        [Log ERROR (lit ''Error processing posts: '' @ quoted (lit ''text''))])"
proof -
  have "map_of [(lit ''id'', JInt 1)] (lit ''text'') = None"
    by (simp add: lit_def)
  then have "excerpt env [(lit ''id'', JInt 1)] = Inl (Exn KeyError (quoted (lit ''text'')))"
    by (rule excerpt_missing_text)
  then have "iteration env 0 [(lit ''id'', JInt 1)] = (Inl (Exn KeyError (quoted (lit ''text''))), [])"
    by (rule iteration_excerpt_fails)
  then have "loop env 0 ([(lit ''id'', JInt 1)] # rest) = (Inl (Exn KeyError (quoted (lit ''text''))), [])"
    by (rule loop_abort)
  then have "process_posts_try env ([(lit ''id'', JInt 1)] # rest) path
               = (Inl (Exn KeyError (quoted (lit ''text''))), [])"
    by (simp add: process_posts_try_def)
  from process_posts_wraps[OF this, where raw = raw] show ?thesis by simp
qed

text \<open>
  C8, as amended. For every raw post that survives enrichment, the enriched post agrees
  with the original on every field other than \<open>text\<close> and the keys of the metadata
  that extraction returned for that post; these keys always include \<open>line_count\<close>,
  \<open>language\<close> and \<open>tags\<close>, and include whatever further keys the object of the
  language model has, since line 141 checks only that the three are present and line 78
  merges every key. The surviving posts are those of the batch whose enrichment did not
  fail, in order.
\<close>

theorem enrichment_frame:
  assumes "fst (process_posts env raw (Inr posts) path) = Inr out"
  shows "list_all2
           (\<lambda>(j, post) p'.
              (\<forall>k. k \<noteq> lit ''text'' \<and> k \<notin> extracted_keys env j post
                     \<longrightarrow> map_of p' k = map_of post k)
              \<and> {lit ''line_count'', lit ''language'', lit ''tags''} \<subseteq> extracted_keys env j post)
           (filter (\<lambda>(j, post). \<not> isl (fst (enrich_post env j post))) (enumerate 0 posts))
           out"
proof -
  let ?S = "filter (\<lambda>(j, post). \<not> isl (fst (enrich_post env j post))) (enumerate 0 posts)"
  let ?f = "\<lambda>(j, post). projr (fst (enrich_post env j post))"
  from process_posts_stages[OF assms] obtain enriched m where
    l: "fst (loop env 0 posts) = Inr enriched"
    and r: "collect (map (rewrite_tags env m) enriched) = Inr out"
    by blast
  from loop_characterised[OF loop_excerpts[OF l], of 0] l
  have "enriched = [projr (fst (enrich_post env j p)).
                      (j, p) \<leftarrow> enumerate 0 posts, \<not> isl (fst (enrich_post env j p))]"
    by auto
  then have e: "enriched = map ?f ?S"
    by (simp only: comprehension_map_filter)
  have "list_all2 (\<lambda>p p'. rewrite_tags env m p = Inr p') (map ?f ?S) out"
    using r unfolding e by (rule collect_all2)
  then have "list_all2 (\<lambda>x p'. rewrite_tags env m (?f x) = Inr p') ?S out"
    by (simp add: list_all2_map1)
  then show ?thesis
  proof (rule list.rel_mono_strong)
    fix x p'
    assume x: "x \<in> set ?S" and w: "rewrite_tags env m (?f x) = Inr p'"
    obtain j post where jp: "x = (j, post)" by (cases x)
    from x jp have "\<not> isl (fst (enrich_post env j post))" by simp
    then obtain q evs where q: "enrich_post env j post = (Inr q, evs)"
      by (cases "enrich_post env j post"; cases "fst (enrich_post env j post)") auto
    have keys: "{lit ''line_count'', lit ''language'', lit ''tags''} \<subseteq> extracted_keys env j post"
      using q by (rule enrich_post_keys)
    have fr: "\<forall>k. k \<noteq> lit ''text'' \<and> k \<notin> extracted_keys env j post \<longrightarrow> map_of q k = map_of post k"
      using q by (rule enrich_post_frame)
    have w': "rewrite_tags env m q = Inr p'"
      using w jp q by simp
    have "\<forall>k. k \<noteq> lit ''text'' \<and> k \<notin> extracted_keys env j post \<longrightarrow> map_of p' k = map_of post k"
    proof (intro allI impI)
      fix k
      assume k: "k \<noteq> lit ''text'' \<and> k \<notin> extracted_keys env j post"
      with keys have "k \<noteq> lit ''tags''" by auto
      with w' have "map_of p' k = map_of q k" by (rule rewrite_frame)
      with fr k show "map_of p' k = map_of post k" by simp
    qed
    with keys jp show "(case x of (j, post) \<Rightarrow> \<lambda>p'.
              (\<forall>k. k \<noteq> lit ''text'' \<and> k \<notin> extracted_keys env j post
                     \<longrightarrow> map_of p' k = map_of post k)
              \<and> {lit ''line_count'', lit ''language'', lit ''tags''} \<subseteq> extracted_keys env j post) p'"
      by simp
  qed
qed

theorem enrichment_frame_counterexample:
  "fst (process_posts (sample_env (\<lambda>i t. Inr author_json) (\<lambda>t. Inr identity_json))
          (lit ''raw.json'') (Inr [authored_post]) None) = Inr [authored_enriched]
   \<and> lit ''author'' \<notin> {lit ''text'', lit ''line_count'', lit ''language'', lit ''tags''}
   \<and> map_of authored_post (lit ''author'') = Some (JStr (lit ''Asha''))
   \<and> map_of authored_enriched (lit ''author'') = Some (JStr (lit ''LLM''))
   \<and> map_of authored_enriched (lit ''author'') \<noteq> map_of authored_post (lit ''author'')"
  using authored_processed[of "lit ''raw.json''"]
  by (simp add: authored_post_def authored_enriched_def lit_def)

theorem enrichment_frame_witness:
  "fst (process_posts (sample_env (\<lambda>i t. Inr author_json) (\<lambda>t. Inr identity_json))
          (lit ''raw.json'') (Inr [authored_post]) None) = Inr [authored_enriched]
   \<and> extracted_keys (sample_env (\<lambda>i t. Inr author_json) (\<lambda>t. Inr identity_json)) 0 authored_post
       = {lit ''line_count'', lit ''language'', lit ''tags'', lit ''author''}
   \<and> map_of authored_enriched (lit ''id'') = map_of authored_post (lit ''id'')
   \<and> map_of authored_post (lit ''id'') = Some (JInt 7)"
proof -
  let ?A = "sample_env (\<lambda>i t. Inr author_json) (\<lambda>t. Inr identity_json)"
  have o: "fst (process_posts ?A (lit ''raw.json'') (Inr [authored_post]) None)
             = Inr [authored_enriched]"
    by (rule authored_processed)
  have s: "filter (\<lambda>(j, post). \<not> isl (fst (enrich_post ?A j post))) (enumerate 0 [authored_post])
             = [(0, authored_post)]"
    by (simp add: enrich_authored)
  have k: "lit ''id'' \<noteq> lit ''text'' \<and> lit ''id'' \<notin> extracted_keys ?A 0 authored_post"
    unfolding authored_keys by (simp add: lit_def)
  from enrichment_frame[OF o] have
    "\<forall>k. k \<noteq> lit ''text'' \<and> k \<notin> extracted_keys ?A 0 authored_post
           \<longrightarrow> map_of authored_enriched k = map_of authored_post k"
    unfolding s by simp
  with k have "map_of authored_enriched (lit ''id'') = map_of authored_post (lit ''id'')"
    by blast
  moreover have "map_of authored_post (lit ''id'') = Some (JInt 7)"
    by (simp add: authored_post_def lit_def)
  ultimately show ?thesis using o authored_keys by blast
qed

text \<open>
  C9, as amended. \<open>unify\<close> returns the mapping that the answer of the language model
  parses to, whatever mapping that is, and applying a map to a tag that is not one of its
  keys returns the tag. If applying the map to every hashable value of its own value set
  returns that value unchanged, then every tag of an already rewritten post is mapped to
  itself, and rewriting that post again yields the same set of tags; this is given that
  iterating over a set yields only values that were put into it, and that a set built
  from the elements of a set has the same elements.
\<close>

theorem tag_map_application:
  "(collect (map (cleaned_tags env) posts) = Inr tagss
      \<and> clean_text (nfkc env) (join (lit '','') (strs (set_iter env (map JStr (concat tagss)))))
           = Inr tags
      \<and> invoke_unify env tags = Inr content
      \<and> extract_json_from_response content = Inr json_str
      \<and> json_parse env json_str = Inr (JObj d)
      \<longrightarrow> get_unified_tags env posts = (Inr d, []))
   \<and> (map_of m s = None \<longrightarrow> tag_get m (JStr s) = Inr (JStr s))
   \<and> ((\<forall>v\<in>snd ` set m. hashable v \<longrightarrow> tag_get m v = Inr v)
        \<and> (\<forall>xs. set (set_iter env xs) \<subseteq> set xs)
        \<and> (\<forall>xs. set (set_iter env (set_iter env xs)) = set (set_iter env xs))
        \<and> rewrite_tags env m post = Inr post'
        \<longrightarrow> (\<exists>ts. get_tags post' = JArr ts \<and> (\<forall>t\<in>set ts. new_tag m t = Inr t)
               \<and> (\<exists>post'' ts'. rewrite_tags env m post' = Inr post''
                     \<and> get_tags post'' = JArr ts' \<and> ts' = set_iter env ts
                     \<and> set ts' = set ts)))"
proof (intro conjI impI)
  assume "collect (map (cleaned_tags env) posts) = Inr tagss
      \<and> clean_text (nfkc env) (join (lit '','') (strs (set_iter env (map JStr (concat tagss)))))
           = Inr tags
      \<and> invoke_unify env tags = Inr content
      \<and> extract_json_from_response content = Inr json_str
      \<and> json_parse env json_str = Inr (JObj d)"
  then show "get_unified_tags env posts = (Inr d, [])"
    using get_unified_tags_returns by blast
next
  assume "map_of m s = None"
  then show "tag_get m (JStr s) = Inr (JStr s)" by (rule tag_get_default)
next
  assume a: "(\<forall>v\<in>snd ` set m. hashable v \<longrightarrow> tag_get m v = Inr v)
        \<and> (\<forall>xs. set (set_iter env xs) \<subseteq> set xs)
        \<and> (\<forall>xs. set (set_iter env (set_iter env xs)) = set (set_iter env xs))
        \<and> rewrite_tags env m post = Inr post'"
  show "\<exists>ts. get_tags post' = JArr ts \<and> (\<forall>t\<in>set ts. new_tag m t = Inr t)
               \<and> (\<exists>post'' ts'. rewrite_tags env m post' = Inr post''
                     \<and> get_tags post'' = JArr ts' \<and> ts' = set_iter env ts
                     \<and> set ts' = set ts)"
    by (rule rewrite_again) (use a in blast)+
qed

theorem tag_map_application_counterexample:
  "fst (get_unified_tags (sample_env fails_at_three (\<lambda>t. Inr chain_json))
          [tagged_post [lit ''Motivation'']]) = Inr chain_tag_map
   \<and> clean_metadata (sample_env fails_at_three (\<lambda>t. Inr chain_json)) chain_tag_map
       = Inr chain_tag_map
   \<and> JStr (lit ''Growth'') \<in> snd ` set chain_tag_map
   \<and> tag_get chain_tag_map (JStr (lit ''Growth'')) = Inr (JStr (lit ''Mindset''))
   \<and> JStr (lit ''Mindset'') \<noteq> JStr (lit ''Growth'')
   \<and> rewrite_tags (sample_env fails_at_three (\<lambda>t. Inr chain_json)) chain_tag_map
        (tagged_post [lit ''Motivation'']) = Inr (tagged_post [lit ''Growth''])
   \<and> rewrite_tags (sample_env fails_at_three (\<lambda>t. Inr chain_json)) chain_tag_map
        (tagged_post [lit ''Growth'']) = Inr (tagged_post [lit ''Mindset''])
   \<and> get_tags (tagged_post [lit ''Mindset'']) \<noteq> get_tags (tagged_post [lit ''Growth''])"
proof -
  have "fst (get_unified_tags (sample_env fails_at_three (\<lambda>t. Inr chain_json))
          [tagged_post [lit ''Motivation'']]) = Inr chain_tag_map"
    unfolding tagged_motivation by (simp add: chain_unified)
  moreover have "JStr (lit ''Growth'') \<in> snd ` set chain_tag_map
     \<and> tag_get chain_tag_map (JStr (lit ''Growth'')) = Inr (JStr (lit ''Mindset''))
     \<and> JStr (lit ''Mindset'') \<noteq> JStr (lit ''Growth'')"
    by (simp add: chain_tag_map_def tag_get_def hashable_def lit_def)
  moreover have "get_tags (tagged_post [lit ''Mindset'']) \<noteq> get_tags (tagged_post [lit ''Growth''])"
    by (simp add: tagged_tags lit_def)
  ultimately show ?thesis
    using clean_chain_map chain_rewrites by blast
qed

theorem tag_map_application_witness:
  "get_unified_tags (sample_env fails_at_three (\<lambda>t. Inr merge_json))
      [tagged_post [lit ''Motivation'', lit ''Inspiration'', lit ''Career'']]
     = (Inr merge_tag_map, [])
   \<and> map_of merge_tag_map (lit ''Mindset'') = None
   \<and> tag_get merge_tag_map (JStr (lit ''Mindset'')) = Inr (JStr (lit ''Mindset''))
   \<and> list_all (\<lambda>v. tag_get merge_tag_map v = Inr v) (map snd merge_tag_map)
   \<and> rewrite_tags (sample_env fails_at_three (\<lambda>t. Inr merge_json)) merge_tag_map
        (tagged_post [lit ''Motivation'', lit ''Inspiration'', lit ''Career''])
       = Inr (tagged_post [lit ''Growth'', lit ''Career''])
   \<and> new_tag merge_tag_map (JStr (lit ''Growth'')) = Inr (JStr (lit ''Growth''))
   \<and> (\<exists>post'' ts'.
         rewrite_tags (sample_env fails_at_three (\<lambda>t. Inr merge_json)) merge_tag_map
           (tagged_post [lit ''Growth'', lit ''Career'']) = Inr post''
         \<and> get_tags post'' = JArr ts'
         \<and> set ts' = {JStr (lit ''Growth''), JStr (lit ''Career'')})"
proof -
  let ?M = "sample_env fails_at_three (\<lambda>t. Inr merge_json)"
  let ?p = "tagged_post [lit ''Motivation'', lit ''Inspiration'', lit ''Career'']"
  let ?q = "tagged_post [lit ''Growth'', lit ''Career'']"
  note inst = tag_map_application[of ?M "[?p]"
      "[[lit ''Motivation'', lit ''Inspiration'', lit ''Career'']]"
      "lit ''Motivation,Inspiration,Career''" merge_json merge_json merge_tag_map
      merge_tag_map "lit ''Mindset''" ?p ?q]
  have a1: "collect (map (cleaned_tags ?M) [?p])
              = Inr [[lit ''Motivation'', lit ''Inspiration'', lit ''Career'']]"
    by (simp add: merge_cleaned_tags)
  have a2: "clean_text (nfkc ?M)
              (join (lit '','')
                 (strs (set_iter ?M
                    (map JStr (concat [[lit ''Motivation'', lit ''Inspiration'', lit ''Career'']])))))
              = Inr (lit ''Motivation,Inspiration,Career'')"
    unfolding sample_env_sel concat.simps append_Nil2 merge_joined by (rule clean_text_more)
  have a3: "invoke_unify ?M (lit ''Motivation,Inspiration,Career'') = Inr merge_json"
    by (simp add: sample_env_sel)
  have a4: "extract_json_from_response merge_json = Inr merge_json"
    by (rule extract_merge)
  have a5: "json_parse ?M merge_json = Inr (JObj merge_tag_map)"
    by (simp add: sample_env_sel sample_parse_merge)
  have b: "map_of merge_tag_map (lit ''Mindset'') = None"
    by (simp add: merge_tag_map_def lit_def)
  have c1: "\<forall>v\<in>snd ` set merge_tag_map. hashable v \<longrightarrow> tag_get merge_tag_map v = Inr v"
    by (rule merge_fixed)
  have c2: "\<forall>xs. set (set_iter ?M xs) \<subseteq> set xs"
    by (simp add: sample_env_sel)
  have c3: "\<forall>xs. set (set_iter ?M (set_iter ?M xs)) = set (set_iter ?M xs)"
    by (simp add: sample_env_sel)
  have c4: "rewrite_tags ?M merge_tag_map ?p = Inr ?q"
    by (rule merge_rewrite)
  have g: "get_tags ?q = JArr [JStr (lit ''Growth''), JStr (lit ''Career'')]"
    by (simp add: tagged_tags)
  from inst a1 a2 a3 a4 a5 have 1: "get_unified_tags ?M [?p] = (Inr merge_tag_map, [])"
    by blast
  from inst b have 2: "tag_get merge_tag_map (JStr (lit ''Mindset'')) = Inr (JStr (lit ''Mindset''))"
    by blast
  from inst c1 c2 c3 c4 obtain ts where
    ts: "get_tags ?q = JArr ts" "\<forall>t\<in>set ts. new_tag merge_tag_map t = Inr t"
       "\<exists>post'' ts'. rewrite_tags ?M merge_tag_map ?q = Inr post''
            \<and> get_tags post'' = JArr ts' \<and> ts' = set_iter ?M ts \<and> set ts' = set ts"
    by blast
  from ts(1) g have e: "ts = [JStr (lit ''Growth''), JStr (lit ''Career'')]" by simp
  from ts(2) have 3: "new_tag merge_tag_map (JStr (lit ''Growth'')) = Inr (JStr (lit ''Growth''))"
    unfolding e by simp
  from ts(3) have 4: "\<exists>post'' ts'. rewrite_tags ?M merge_tag_map ?q = Inr post''
         \<and> get_tags post'' = JArr ts'
         \<and> set ts' = {JStr (lit ''Growth''), JStr (lit ''Career'')}"
    unfolding e by auto
  have 5: "list_all (\<lambda>v. tag_get merge_tag_map v = Inr v) (map snd merge_tag_map)"
    using c1 by (simp add: merge_tag_map_def hashable_def)
  show ?thesis using 1 b 2 5 c4 3 4 by blast
qed

end
